theory Spec2Isabelle
  imports Main
begin

section \<open>Data model of game.py\<close>

datatype color = WHITE | BLACK

datatype piece_type = PAWN | ROOK | KNIGHT | BISHOP | QUEEN | KING

record piece =
  color :: color
  piece_type :: piece_type
  has_moved :: bool

text \<open>\<^verbatim>\<open>Piece(color, piece_type)\<close>: the constructor clears \<^verbatim>\<open>has_moved\<close>.\<close>

definition Piece :: "color \<Rightarrow> piece_type \<Rightarrow> piece" where
  "Piece c t = \<lparr>color = c, piece_type = t, has_moved = False\<rparr>"

text \<open>
  A Python \<^verbatim>\<open>str\<close> is a sequence of Unicode code points; a position string is kept as
  the list of its code points. \<open>pystr\<close> turns an Isabelle literal into such a list.
\<close>

type_synonym pystr = "nat list"

definition pystr :: "string \<Rightarrow> pystr" where
  "pystr cs = map of_char cs"

text \<open>The board is a list of rows, each a list of cells; a cell holds a piece or \<^verbatim>\<open>None\<close>.\<close>

type_synonym grid = "piece option list list"

record move_record =
  mv_from :: pystr
  mv_to :: pystr
  mv_piece :: piece
  mv_captured :: "piece option"

record chess_board =
  board :: grid
  current_player :: color
  move_history :: "move_record list"

text \<open>The exceptions the code can raise.\<close>

datatype error = ValueError | TypeError | IndexError | AttributeError

text \<open>
  A call either returns a value, raises (\<open>Inl\<close>), or does not return at all (\<open>None\<close>):
  the last can only come from the \<^verbatim>\<open>while\<close> loop of \<^verbatim>\<open>is_path_clear\<close>.
\<close>

type_synonym 'a res = "(error + 'a) option"

section \<open>Python list indexing\<close>

text \<open>
  \<^verbatim>\<open>xs[i]\<close> on a list of length \<open>n\<close>: indices \<open>0 .. n-1\<close> read from the front,
  \<open>-n .. -1\<close> from the back, every other index raises \<^verbatim>\<open>IndexError\<close>.
\<close>

definition py_norm :: "nat \<Rightarrow> int \<Rightarrow> nat option" where
  "py_norm n i =
     (if 0 \<le> i \<and> i < int n then Some (nat i)
      else if - int n \<le> i \<and> i < 0 then Some (nat (int n + i))
      else None)"

definition py_index :: "'a list \<Rightarrow> int \<Rightarrow> error + 'a" where
  "py_index xs i = (case py_norm (length xs) i of None \<Rightarrow> Inl IndexError | Some j \<Rightarrow> Inr (xs ! j))"

text \<open>\<^verbatim>\<open>self.board[row][col]\<close>\<close>

definition board_at :: "grid \<Rightarrow> int \<Rightarrow> int \<Rightarrow> error + piece option" where
  "board_at g row col =
     (case py_index g row of Inl e \<Rightarrow> Inl e | Inr r \<Rightarrow> py_index r col)"

text \<open>\<^verbatim>\<open>self.board[row][col] = v\<close>\<close>

definition board_set :: "grid \<Rightarrow> int \<Rightarrow> int \<Rightarrow> piece option \<Rightarrow> error + grid" where
  "board_set g row col v =
     (case py_norm (length g) row of
        None \<Rightarrow> Inl IndexError
      | Some i \<Rightarrow>
          (case py_norm (length (g ! i)) col of
             None \<Rightarrow> Inl IndexError
           | Some j \<Rightarrow> Inr (g[i := (g ! i)[j := v]])))"

section \<open>Initial position\<close>

text \<open>\<^verbatim>\<open>range(8)\<close>, and all squares in the order of the nested \<^verbatim>\<open>for row / for col\<close> loops.\<close>

definition range8 :: "int list" where
  "range8 = [0, 1, 2, 3, 4, 5, 6, 7]"

definition squares :: "(int \<times> int) list" where
  "squares = List.product range8 range8"

definition piece_order :: "piece_type list" where
  "piece_order = [ROOK, KNIGHT, BISHOP, QUEEN, KING, BISHOP, KNIGHT, ROOK]"

text \<open>
  \<^verbatim>\<open>setup_board\<close> fills row 1 and row 6 with pawns and rows 0 and 7 with
  \<^verbatim>\<open>piece_order\<close>; every other cell keeps the \<^verbatim>\<open>None\<close> of \<^verbatim>\<open>__init__\<close>.
  All indices are the constants of \<^verbatim>\<open>range(8)\<close>, so the rows are written out.
\<close>

definition setup_board :: grid where
  "setup_board =
     [map (\<lambda>t. Some (Piece BLACK t)) piece_order,
      map (\<lambda>_. Some (Piece BLACK PAWN)) range8,
      map (\<lambda>_. None) range8,
      map (\<lambda>_. None) range8,
      map (\<lambda>_. None) range8,
      map (\<lambda>_. None) range8,
      map (\<lambda>_. Some (Piece WHITE PAWN)) range8,
      map (\<lambda>t. Some (Piece WHITE t)) piece_order]"

text \<open>\<^verbatim>\<open>ChessBoard()\<close>\<close>

definition new_board :: chess_board where
  "new_board = \<lparr>board = setup_board, current_player = WHITE, move_history = []\<rparr>"

section \<open>Notation\<close>

text \<open>
  \<^verbatim>\<open>str.lower()\<close> of a one-character string. ASCII capitals move by 32; U+0130 is the
  one code point whose lower case has two code points (\<^verbatim>\<open>i\<close> and U+0307); U+212A
  (KELVIN SIGN) lowers to \<^verbatim>\<open>k\<close>. No other code point outside ASCII has a lower case inside
  ASCII, and such code points are returned as they are: the caller only looks at whether
  the result is one of \<^verbatim>\<open>a\<close> .. \<^verbatim>\<open>h\<close>.
\<close>

definition py_lower :: "nat \<Rightarrow> pystr" where
  "py_lower c =
     (if 65 \<le> c \<and> c \<le> 90 then [c + 32]
      else if c = 304 then [105, 775]
      else if c = 8490 then [107]
      else [c])"

text \<open>\<^verbatim>\<open>ord(s)\<close>: \<^verbatim>\<open>TypeError\<close> unless \<open>s\<close> has exactly one character.\<close>

definition py_ord :: "pystr \<Rightarrow> error + int" where
  "py_ord s = (case s of [c] \<Rightarrow> Inr (int c) | _ \<Rightarrow> Inl TypeError)"

text \<open>
  \<^verbatim>\<open>int(s)\<close> of a one-character string: the value of a decimal digit, \<^verbatim>\<open>ValueError\<close>
  otherwise. \<^verbatim>\<open>int\<close> accepts the decimal digits of every script. In the Unicode
  database of Python 3.11 (Unicode 14.0) these are 66 runs of ten consecutive code points
  with the values 0 to 9; \<open>decimal_zeros\<close> lists the code point of each run's zero,
  the first being the ASCII digit \<^verbatim>\<open>0\<close>.
\<close>

definition decimal_zeros :: "int list" where
  "decimal_zeros =
     [48, 1632, 1776, 1984, 2406, 2534, 2662, 2790,
      2918, 3046, 3174, 3302, 3430, 3558, 3664, 3792,
      3872, 4160, 4240, 6112, 6160, 6470, 6608, 6784,
      6800, 6992, 7088, 7232, 7248, 42528, 43216, 43264,
      43472, 43504, 43600, 44016, 65296, 66720, 68912, 69734,
      69872, 69942, 70096, 70384, 70736, 70864, 71248, 71360,
      71472, 71904, 72016, 72784, 73040, 73120, 92768, 92864,
      93008, 120782, 120792, 120802, 120812, 120822, 123200, 123632,
      125264, 130032]"

definition py_int :: "nat \<Rightarrow> error + int" where
  "py_int c =
     (case find (\<lambda>z. z \<le> int c \<and> int c \<le> z + 9) decimal_zeros of
        None \<Rightarrow> Inl ValueError
      | Some z \<Rightarrow> Inr (int c - z))"

definition position_to_coords :: "pystr \<Rightarrow> error + (int \<times> int)" where
  "position_to_coords position =
     (if length position \<noteq> 2 then Inl ValueError
      else
        (case py_ord (py_lower (position ! 0)) of
           Inl e \<Rightarrow> Inl e
         | Inr code \<Rightarrow>
             (let col = code - 97 in
              case py_int (position ! 1) of
                Inl e \<Rightarrow> Inl e
              | Inr d \<Rightarrow>
                  (let row = 8 - d in
                   if \<not> (0 \<le> row \<and> row < 8 \<and> 0 \<le> col \<and> col < 8) then Inl ValueError
                   else Inr (row, col)))))"

section \<open>Queries on the board\<close>

definition get_piece :: "chess_board \<Rightarrow> int \<Rightarrow> int \<Rightarrow> error + piece option" where
  "get_piece s row col =
     (if 0 \<le> row \<and> row < 8 \<and> 0 \<le> col \<and> col < 8 then board_at (board s) row col
      else Inr None)"

definition is_valid_position :: "int \<Rightarrow> int \<Rightarrow> bool" where
  "is_valid_position row col \<longleftrightarrow> 0 \<le> row \<and> row < 8 \<and> 0 \<le> col \<and> col < 8"

text \<open>
  The \<^verbatim>\<open>while\<close> loop of \<^verbatim>\<open>is_path_clear\<close>, with the loop variables
  \<^verbatim>\<open>current_row\<close>, \<^verbatim>\<open>current_col\<close> as the last two arguments.
\<close>

partial_function (option) path_loop ::
  "grid \<Rightarrow> int \<Rightarrow> int \<Rightarrow> int \<Rightarrow> int \<Rightarrow> int \<Rightarrow> int \<Rightarrow> (error + bool) option" where
  "path_loop g row_dir col_dir to_row to_col current_row current_col =
     (if (current_row, current_col) \<noteq> (to_row, to_col) then
        (case board_at g current_row current_col of
           Inl e \<Rightarrow> Some (Inl e)
         | Inr cell \<Rightarrow>
             (if cell \<noteq> None then Some (Inr False)
              else path_loop g row_dir col_dir to_row to_col
                     (current_row + row_dir) (current_col + col_dir)))
      else Some (Inr True))"

declare path_loop.simps [code]

definition step_dir :: "int \<Rightarrow> int \<Rightarrow> int" where
  "step_dir a b = (if a = b then 0 else if b > a then 1 else - 1)"

definition is_path_clear :: "chess_board \<Rightarrow> int \<Rightarrow> int \<Rightarrow> int \<Rightarrow> int \<Rightarrow> bool res" where
  "is_path_clear s from_row from_col to_row to_col =
     (let row_dir = step_dir from_row to_row;
          col_dir = step_dir from_col to_col
      in path_loop (board s) row_dir col_dir to_row to_col
           (from_row + row_dir) (from_col + col_dir))"

section \<open>Movement rules\<close>

text \<open>
  \<^verbatim>\<open>piece.color\<close> on \<^verbatim>\<open>None\<close> raises \<^verbatim>\<open>AttributeError\<close>. The two cells of
  the double step are read left to right, the second only when the first is empty
  (\<^verbatim>\<open>and\<close>).
\<close>

definition is_valid_pawn_move :: "chess_board \<Rightarrow> int \<Rightarrow> int \<Rightarrow> int \<Rightarrow> int \<Rightarrow> error + bool" where
  "is_valid_pawn_move s from_row from_col to_row to_col =
     (case get_piece s from_row from_col of
        Inl e \<Rightarrow> Inl e
      | Inr None \<Rightarrow> Inl AttributeError
      | Inr (Some piece) \<Rightarrow>
          (let direction = (if color piece = WHITE then - 1 else 1) in
           if from_col = to_col then
             (if to_row = from_row + direction then
                (case get_piece s to_row to_col of
                   Inl e \<Rightarrow> Inl e
                 | Inr dest \<Rightarrow> Inr (dest = None))
              else if to_row = from_row + 2 * direction \<and> \<not> has_moved piece then
                (case get_piece s to_row to_col of
                   Inl e \<Rightarrow> Inl e
                 | Inr dest \<Rightarrow>
                     (if dest = None then
                        (case get_piece s (from_row + direction) from_col of
                           Inl e \<Rightarrow> Inl e
                         | Inr mid \<Rightarrow> Inr (mid = None))
                      else Inr False))
              else Inr False)
           else if \<bar>from_col - to_col\<bar> = 1 \<and> to_row = from_row + direction then
             (case get_piece s to_row to_col of
                Inl e \<Rightarrow> Inl e
              | Inr target_piece \<Rightarrow>
                  Inr (case target_piece of
                         None \<Rightarrow> False
                       | Some target \<Rightarrow> color target \<noteq> color piece))
           else Inr False))"

definition is_valid_rook_move :: "chess_board \<Rightarrow> int \<Rightarrow> int \<Rightarrow> int \<Rightarrow> int \<Rightarrow> bool res" where
  "is_valid_rook_move s from_row from_col to_row to_col =
     (if from_row \<noteq> to_row \<and> from_col \<noteq> to_col then Some (Inr False)
      else is_path_clear s from_row from_col to_row to_col)"

definition is_valid_knight_move :: "int \<Rightarrow> int \<Rightarrow> int \<Rightarrow> int \<Rightarrow> bool" where
  "is_valid_knight_move from_row from_col to_row to_col =
     (let row_diff = \<bar>to_row - from_row\<bar>;
          col_diff = \<bar>to_col - from_col\<bar>
      in (row_diff = 2 \<and> col_diff = 1) \<or> (row_diff = 1 \<and> col_diff = 2))"

definition is_valid_bishop_move :: "chess_board \<Rightarrow> int \<Rightarrow> int \<Rightarrow> int \<Rightarrow> int \<Rightarrow> bool res" where
  "is_valid_bishop_move s from_row from_col to_row to_col =
     (if \<bar>to_row - from_row\<bar> \<noteq> \<bar>to_col - from_col\<bar> then Some (Inr False)
      else is_path_clear s from_row from_col to_row to_col)"

text \<open>\<^verbatim>\<open>or\<close> evaluates the bishop rule only when the rook rule returned \<^verbatim>\<open>False\<close>.\<close>

definition is_valid_queen_move :: "chess_board \<Rightarrow> int \<Rightarrow> int \<Rightarrow> int \<Rightarrow> int \<Rightarrow> bool res" where
  "is_valid_queen_move s from_row from_col to_row to_col =
     (case is_valid_rook_move s from_row from_col to_row to_col of
        None \<Rightarrow> None
      | Some (Inl e) \<Rightarrow> Some (Inl e)
      | Some (Inr r) \<Rightarrow>
          (if r then Some (Inr True)
           else is_valid_bishop_move s from_row from_col to_row to_col))"

definition is_valid_king_move :: "int \<Rightarrow> int \<Rightarrow> int \<Rightarrow> int \<Rightarrow> bool" where
  "is_valid_king_move from_row from_col to_row to_col \<longleftrightarrow>
     \<bar>to_row - from_row\<bar> \<le> 1 \<and> \<bar>to_col - from_col\<bar> \<le> 1 \<and>
     \<not> (from_row = to_row \<and> from_col = to_col)"

definition is_valid_move :: "chess_board \<Rightarrow> int \<Rightarrow> int \<Rightarrow> int \<Rightarrow> int \<Rightarrow> bool res" where
  "is_valid_move s from_row from_col to_row to_col =
     (case get_piece s from_row from_col of
        Inl e \<Rightarrow> Some (Inl e)
      | Inr None \<Rightarrow> Some (Inr False)
      | Inr (Some piece) \<Rightarrow>
          (if color piece \<noteq> current_player s then Some (Inr False)
           else if \<not> is_valid_position to_row to_col then Some (Inr False)
           else
             (case get_piece s to_row to_col of
                Inl e \<Rightarrow> Some (Inl e)
              | Inr dest_piece \<Rightarrow>
                  (if (case dest_piece of None \<Rightarrow> False | Some d \<Rightarrow> color d = color piece)
                   then Some (Inr False)
                   else
                     (case piece_type piece of
                        PAWN \<Rightarrow> Some (is_valid_pawn_move s from_row from_col to_row to_col)
                      | ROOK \<Rightarrow> is_valid_rook_move s from_row from_col to_row to_col
                      | KNIGHT \<Rightarrow> Some (Inr (is_valid_knight_move from_row from_col to_row to_col))
                      | BISHOP \<Rightarrow> is_valid_bishop_move s from_row from_col to_row to_col
                      | QUEEN \<Rightarrow> is_valid_queen_move s from_row from_col to_row to_col
                      | KING \<Rightarrow> Some (Inr (is_valid_king_move from_row from_col to_row to_col)))))))"

section \<open>Check detection\<close>

text \<open>
  The nested \<^verbatim>\<open>for row in range(8): for col in range(8)\<close> loops run over \<open>squares\<close>
  in the same order; a \<^verbatim>\<open>return\<close> inside leaves the recursion.
\<close>

fun find_king_loop :: "chess_board \<Rightarrow> color \<Rightarrow> (int \<times> int) list \<Rightarrow> error + (int \<times> int)" where
  "find_king_loop s clr [] = Inl ValueError"
| "find_king_loop s clr ((row, col) # rest) =
     (case board_at (board s) row col of
        Inl e \<Rightarrow> Inl e
      | Inr None \<Rightarrow> find_king_loop s clr rest
      | Inr (Some piece) \<Rightarrow>
          (if piece_type piece = KING \<and> color piece = clr then Inr (row, col)
           else find_king_loop s clr rest))"

definition find_king :: "chess_board \<Rightarrow> color \<Rightarrow> error + (int \<times> int)" where
  "find_king s clr = find_king_loop s clr squares"

fun in_check_loop :: "chess_board \<Rightarrow> color \<Rightarrow> int \<Rightarrow> int \<Rightarrow> (int \<times> int) list \<Rightarrow> bool res" where
  "in_check_loop s clr king_row king_col [] = Some (Inr False)"
| "in_check_loop s clr king_row king_col ((row, col) # rest) =
     (case board_at (board s) row col of
        Inl e \<Rightarrow> Some (Inl e)
      | Inr None \<Rightarrow> in_check_loop s clr king_row king_col rest
      | Inr (Some piece) \<Rightarrow>
          (if color piece \<noteq> clr then
             (case is_valid_move s row col king_row king_col of
                None \<Rightarrow> None
              | Some (Inl e) \<Rightarrow> Some (Inl e)
              | Some (Inr v) \<Rightarrow>
                  (if v then Some (Inr True)
                   else in_check_loop s clr king_row king_col rest))
           else in_check_loop s clr king_row king_col rest))"

definition is_in_check :: "chess_board \<Rightarrow> color \<Rightarrow> bool res" where
  "is_in_check s clr =
     (case find_king s clr of
        Inl e \<Rightarrow> Some (Inl e)
      | Inr (king_row, king_col) \<Rightarrow> in_check_loop s clr king_row king_col squares)"

section \<open>Operations that write the board\<close>

text \<open>
  A call that writes returns its result with the state it leaves behind, also when it
  raises: \<open>Some (Inl e, s')\<close> is the exception \<open>e\<close> leaving the object as \<open>s'\<close>.
\<close>

type_synonym 'a eff = "((error + 'a) \<times> chess_board) option"

definition would_be_in_check_after_move ::
  "chess_board \<Rightarrow> int \<Rightarrow> int \<Rightarrow> int \<Rightarrow> int \<Rightarrow> bool eff" where
  "would_be_in_check_after_move s from_row from_col to_row to_col =
     (case board_at (board s) from_row from_col of
        Inl e \<Rightarrow> Some (Inl e, s)
      | Inr original_piece \<Rightarrow>
     (case board_at (board s) to_row to_col of
        Inl e \<Rightarrow> Some (Inl e, s)
      | Inr captured_piece \<Rightarrow>
     (case board_set (board s) to_row to_col original_piece of
        Inl e \<Rightarrow> Some (Inl e, s)
      | Inr g1 \<Rightarrow>
     (case board_set g1 from_row from_col None of
        Inl e \<Rightarrow> Some (Inl e, s\<lparr>board := g1\<rparr>)
      | Inr g2 \<Rightarrow>
     (case is_in_check (s\<lparr>board := g2\<rparr>) (current_player s) of
        None \<Rightarrow> None
      | Some (Inl e) \<Rightarrow> Some (Inl e, s\<lparr>board := g2\<rparr>)
      | Some (Inr in_check) \<Rightarrow>
     (case board_set g2 from_row from_col original_piece of
        Inl e \<Rightarrow> Some (Inl e, s\<lparr>board := g2\<rparr>)
      | Inr g3 \<Rightarrow>
     (case board_set g3 to_row to_col captured_piece of
        Inl e \<Rightarrow> Some (Inl e, s\<lparr>board := g3\<rparr>)
      | Inr g4 \<Rightarrow> Some (Inr in_check, s\<lparr>board := g4\<rparr>))))))))"

definition other_color :: "color \<Rightarrow> color" where
  "other_color c = (if c = WHITE then BLACK else WHITE)"

text \<open>
  The part of \<^verbatim>\<open>move_piece\<close> after the two rejections. \<^verbatim>\<open>piece.has_moved = True\<close>
  writes to the object that the destination cell refers to by then, unless the second
  assignment has emptied that very cell.
\<close>

definition commit_move ::
  "chess_board \<Rightarrow> pystr \<Rightarrow> pystr \<Rightarrow> int \<Rightarrow> int \<Rightarrow> int \<Rightarrow> int \<Rightarrow> bool eff" where
  "commit_move s from_pos to_pos from_row from_col to_row to_col =
     (case board_at (board s) from_row from_col of
        Inl e \<Rightarrow> Some (Inl e, s)
      | Inr piece \<Rightarrow>
     (case board_at (board s) to_row to_col of
        Inl e \<Rightarrow> Some (Inl e, s)
      | Inr captured_piece \<Rightarrow>
     (case board_set (board s) to_row to_col piece of
        Inl e \<Rightarrow> Some (Inl e, s)
      | Inr g1 \<Rightarrow>
     (case board_set g1 from_row from_col None of
        Inl e \<Rightarrow> Some (Inl e, s\<lparr>board := g1\<rparr>)
      | Inr g2 \<Rightarrow>
     (case piece of
        None \<Rightarrow> Some (Inl AttributeError, s\<lparr>board := g2\<rparr>)
      | Some p \<Rightarrow>
     (let moved = p\<lparr>has_moved := True\<rparr> in
      case (if (from_row, from_col) = (to_row, to_col) then Inr g2
            else board_set g2 to_row to_col (Some moved)) of
        Inl e \<Rightarrow> Some (Inl e, s\<lparr>board := g2\<rparr>)
      | Inr g3 \<Rightarrow>
          Some (Inr True,
                s\<lparr>board := g3,
                  move_history := move_history s @
                    [\<lparr>mv_from = from_pos, mv_to = to_pos, mv_piece = moved,
                      mv_captured = captured_piece\<rparr>],
                  current_player := other_color (current_player s)\<rparr>)))))))"

text \<open>\<^verbatim>\<open>except ValueError\<close> turns that exception into \<^verbatim>\<open>return False\<close>; any other goes on.\<close>

definition move_piece :: "chess_board \<Rightarrow> pystr \<Rightarrow> pystr \<Rightarrow> bool eff" where
  "move_piece s from_pos to_pos =
     (case position_to_coords from_pos of
        Inl e \<Rightarrow> (if e = ValueError then Some (Inr False, s) else Some (Inl e, s))
      | Inr (from_row, from_col) \<Rightarrow>
     (case position_to_coords to_pos of
        Inl e \<Rightarrow> (if e = ValueError then Some (Inr False, s) else Some (Inl e, s))
      | Inr (to_row, to_col) \<Rightarrow>
     (case is_valid_move s from_row from_col to_row to_col of
        None \<Rightarrow> None
      | Some (Inl e) \<Rightarrow> Some (Inl e, s)
      | Some (Inr valid) \<Rightarrow>
          (if \<not> valid then Some (Inr False, s)
           else
             (case would_be_in_check_after_move s from_row from_col to_row to_col of
                None \<Rightarrow> None
              | Some (Inl e, s1) \<Rightarrow> Some (Inl e, s1)
              | Some (Inr in_check, s1) \<Rightarrow>
                  (if in_check then Some (Inr False, s1)
                   else commit_move s1 from_pos to_pos from_row from_col to_row to_col))))))"

section \<open>Checkmate and stalemate\<close>

text \<open>
  The four nested loops that \<^verbatim>\<open>is_checkmate\<close> and \<^verbatim>\<open>is_stalemate\<close> share.
  The result \<open>True\<close> of a loop says that the \<^verbatim>\<open>return False\<close> inside was reached.
\<close>

fun try_targets :: "chess_board \<Rightarrow> int \<Rightarrow> int \<Rightarrow> (int \<times> int) list \<Rightarrow> bool eff" where
  "try_targets s from_row from_col [] = Some (Inr False, s)"
| "try_targets s from_row from_col ((to_row, to_col) # rest) =
     (case is_valid_move s from_row from_col to_row to_col of
        None \<Rightarrow> None
      | Some (Inl e) \<Rightarrow> Some (Inl e, s)
      | Some (Inr valid) \<Rightarrow>
          (if valid then
             (case would_be_in_check_after_move s from_row from_col to_row to_col of
                None \<Rightarrow> None
              | Some (Inl e, s1) \<Rightarrow> Some (Inl e, s1)
              | Some (Inr in_check, s1) \<Rightarrow>
                  (if \<not> in_check then Some (Inr True, s1)
                   else try_targets s1 from_row from_col rest))
           else try_targets s from_row from_col rest))"

fun try_origins :: "chess_board \<Rightarrow> color \<Rightarrow> (int \<times> int) list \<Rightarrow> bool eff" where
  "try_origins s clr [] = Some (Inr False, s)"
| "try_origins s clr ((from_row, from_col) # rest) =
     (case board_at (board s) from_row from_col of
        Inl e \<Rightarrow> Some (Inl e, s)
      | Inr None \<Rightarrow> try_origins s clr rest
      | Inr (Some piece) \<Rightarrow>
          (if color piece = clr then
             (case try_targets s from_row from_col squares of
                None \<Rightarrow> None
              | Some (Inl e, s1) \<Rightarrow> Some (Inl e, s1)
              | Some (Inr found, s1) \<Rightarrow>
                  (if found then Some (Inr True, s1) else try_origins s1 clr rest))
           else try_origins s clr rest))"

definition is_checkmate :: "chess_board \<Rightarrow> color \<Rightarrow> bool eff" where
  "is_checkmate s clr =
     (case is_in_check s clr of
        None \<Rightarrow> None
      | Some (Inl e) \<Rightarrow> Some (Inl e, s)
      | Some (Inr in_check) \<Rightarrow>
          (if \<not> in_check then Some (Inr False, s)
           else
             (case try_origins s clr squares of
                None \<Rightarrow> None
              | Some (Inl e, s1) \<Rightarrow> Some (Inl e, s1)
              | Some (Inr found, s1) \<Rightarrow> Some (Inr (\<not> found), s1))))"

definition is_stalemate :: "chess_board \<Rightarrow> color \<Rightarrow> bool eff" where
  "is_stalemate s clr =
     (case is_in_check s clr of
        None \<Rightarrow> None
      | Some (Inl e) \<Rightarrow> Some (Inl e, s)
      | Some (Inr in_check) \<Rightarrow>
          (if in_check then Some (Inr False, s)
           else
             (case try_origins s clr squares of
                None \<Rightarrow> None
              | Some (Inl e, s1) \<Rightarrow> Some (Inl e, s1)
              | Some (Inr found, s1) \<Rightarrow> Some (Inr (\<not> found), s1))))"

section \<open>Vocabulary of the statements\<close>

text \<open>
  Two positions are aligned when they share a row, a column or a diagonal; \<open>span\<close> is
  the number of steps from one to the other.
\<close>

definition aligned :: "int \<Rightarrow> int \<Rightarrow> int \<Rightarrow> int \<Rightarrow> bool" where
  "aligned ar ac br bc \<longleftrightarrow> ar = br \<or> ac = bc \<or> \<bar>br - ar\<bar> = \<bar>bc - ac\<bar>"

definition span :: "int \<Rightarrow> int \<Rightarrow> int \<Rightarrow> int \<Rightarrow> nat" where
  "span ar ac br bc = nat (max \<bar>br - ar\<bar> \<bar>bc - ac\<bar>)"

text \<open>A board as the constructor builds it: eight rows of eight cells.\<close>

definition wf_grid :: "grid \<Rightarrow> bool" where
  "wf_grid g \<longleftrightarrow> length g = 8 \<and> list_all (\<lambda>r. length r = 8) g"

text \<open>The board with one cell replaced, for positions of the board.\<close>

definition put :: "grid \<Rightarrow> int \<Rightarrow> int \<Rightarrow> piece option \<Rightarrow> grid" where
  "put g r c v = g[nat r := (g ! nat r)[nat c := v]]"

text \<open>
  The state in the middle of \<^verbatim>\<open>would_be_in_check_after_move\<close>: the piece of the
  origin stands on the destination and the origin is empty.
\<close>

definition tentative :: "chess_board \<Rightarrow> int \<Rightarrow> int \<Rightarrow> int \<Rightarrow> int \<Rightarrow> chess_board" where
  "tentative s fr fc tr tc =
     s\<lparr>board := put (put (board s) tr tc (board s ! nat fr ! nat fc)) fr fc None\<rparr>"

text \<open>
  The state after \<open>n\<close> calls of \<^verbatim>\<open>would_be_in_check_after_move\<close> in a row with the
  same arguments, whatever each call returns or raises.
\<close>

fun would_be_in_check_repeated ::
  "nat \<Rightarrow> chess_board \<Rightarrow> int \<Rightarrow> int \<Rightarrow> int \<Rightarrow> int \<Rightarrow> chess_board option" where
  "would_be_in_check_repeated 0 s fr fc tr tc = Some s"
| "would_be_in_check_repeated (Suc n) s fr fc tr tc =
     (case would_be_in_check_after_move s fr fc tr tc of
        None \<Rightarrow> None
      | Some (r, s1) \<Rightarrow> would_be_in_check_repeated n s1 fr fc tr tc)"

text \<open>
  A game script: \<^verbatim>\<open>move_piece\<close> for each pair of position strings in turn, as long as
  the moves are accepted. The result is that of the first call that did not return
  \<^verbatim>\<open>True\<close>, or \<^verbatim>\<open>True\<close> with the final state.
\<close>

fun play :: "chess_board \<Rightarrow> (string \<times> string) list \<Rightarrow> bool eff" where
  "play s [] = Some (Inr True, s)"
| "play s ((a, b) # ms) =
     (case move_piece s (pystr a) (pystr b) of
        Some (Inr True, s1) \<Rightarrow> play s1 ms
      | r \<Rightarrow> r)"

text \<open>The state a game script leads to from the initial position.\<close>

definition state_after :: "(string \<times> string) list \<Rightarrow> chess_board" where
  "state_after ms = (case play new_board ms of Some (r, s) \<Rightarrow> s | None \<Rightarrow> new_board)"

text \<open>The content of a cell, for positions of the board.\<close>

definition cell :: "chess_board \<Rightarrow> int \<Rightarrow> int \<Rightarrow> piece option" where
  "cell s r c = board s ! nat r ! nat c"

text \<open>
  The pawn rule in the words of the specification: White advances toward decreasing
  rows, Black toward increasing rows; a move is legal when it is one square forward into
  an empty cell, or two squares forward by a pawn that has not moved with the cell in
  between and the destination both empty, or one square diagonally forward onto a piece
  of the other colour.
\<close>

definition direction :: "piece \<Rightarrow> int" where
  "direction p = (if color p = WHITE then - 1 else 1)"

definition pawn_rule :: "chess_board \<Rightarrow> piece \<Rightarrow> int \<Rightarrow> int \<Rightarrow> int \<Rightarrow> int \<Rightarrow> bool" where
  "pawn_rule s p fr fc tr tc \<longleftrightarrow>
     (tc = fc \<and> tr = fr + direction p \<and> cell s tr tc = None) \<or>
     (tc = fc \<and> tr = fr + 2 * direction p \<and> \<not> has_moved p \<and>
        cell s (fr + direction p) fc = None \<and> cell s tr tc = None) \<or>
     (\<bar>tc - fc\<bar> = 1 \<and> tr = fr + direction p \<and>
        (case cell s tr tc of None \<Rightarrow> False | Some q \<Rightarrow> color q \<noteq> color p))"

text \<open>
  Position strings in the words of the specification: a file letter \<^verbatim>\<open>a\<close> .. \<^verbatim>\<open>h\<close>
  in either case followed by a rank digit \<^verbatim>\<open>1\<close> .. \<^verbatim>\<open>8\<close>; and strings of ASCII
  characters.
\<close>

definition ascii :: "pystr \<Rightarrow> bool" where
  "ascii str \<longleftrightarrow> list_all (\<lambda>c. c < 128) str"

definition well_formed_position :: "pystr \<Rightarrow> bool" where
  "well_formed_position str \<longleftrightarrow>
     length str = 2 \<and>
     ((97 \<le> str ! 0 \<and> str ! 0 \<le> 104) \<or> (65 \<le> str ! 0 \<and> str ! 0 \<le> 72)) \<and>
     (49 \<le> str ! 1 \<and> str ! 1 \<le> 56)"

text \<open>
  Check in the words of the specification. A move is rule-legal when the origin holds a
  piece, the destination is on the board and holds no piece of the mover's colour, and
  the rule of the piece's kind returns \<^verbatim>\<open>True\<close>; whose turn it is plays no part. A
  colour is attacked when some piece of the other colour has a rule-legal move onto the
  square of its King.
\<close>

definition rule_legal :: "chess_board \<Rightarrow> int \<Rightarrow> int \<Rightarrow> int \<Rightarrow> int \<Rightarrow> bool" where
  "rule_legal s fr fc tr tc \<longleftrightarrow>
     (case cell s fr fc of
        None \<Rightarrow> False
      | Some p \<Rightarrow>
          is_valid_position fr fc \<and> is_valid_position tr tc \<and>
          (case cell s tr tc of None \<Rightarrow> True | Some q \<Rightarrow> color q \<noteq> color p) \<and>
          (case piece_type p of
             PAWN \<Rightarrow> is_valid_pawn_move s fr fc tr tc = Inr True
           | ROOK \<Rightarrow> is_valid_rook_move s fr fc tr tc = Some (Inr True)
           | KNIGHT \<Rightarrow> is_valid_knight_move fr fc tr tc
           | BISHOP \<Rightarrow> is_valid_bishop_move s fr fc tr tc = Some (Inr True)
           | QUEEN \<Rightarrow> is_valid_queen_move s fr fc tr tc = Some (Inr True)
           | KING \<Rightarrow> is_valid_king_move fr fc tr tc))"

definition attacker :: "chess_board \<Rightarrow> color \<Rightarrow> int \<Rightarrow> int \<Rightarrow> int \<times> int \<Rightarrow> bool" where
  "attacker s clr kr kc sq \<longleftrightarrow>
     (case sq of (r, c) \<Rightarrow>
        (case cell s r c of None \<Rightarrow> False | Some p \<Rightarrow> color p \<noteq> clr) \<and>
        rule_legal s r c kr kc)"

definition attacked :: "chess_board \<Rightarrow> color \<Rightarrow> bool" where
  "attacked s clr \<longleftrightarrow>
     (case find_king s clr of
        Inl e \<Rightarrow> False
      | Inr (kr, kc) \<Rightarrow> list_ex (attacker s clr kr kc) squares)"

text \<open>
  Following one piece through a run of moves. \<open>track s pos ms\<close> makes the moves
  \<open>ms\<close> from the state \<open>s\<close> with \<^verbatim>\<open>move_piece\<close>; it is \<open>Some (s', pos')\<close> when every
  move was accepted, the piece that stood on \<open>pos\<close> in \<open>s\<close> was never captured, and
  that piece stands on \<open>pos'\<close> in the final state \<open>s'\<close>: a move from its square takes
  it along, a move onto its square captures it, any other move leaves it where it is.
\<close>

fun track ::
  "chess_board \<Rightarrow> int \<times> int \<Rightarrow> (pystr \<times> pystr) list \<Rightarrow> (chess_board \<times> (int \<times> int)) option" where
  "track s pos [] = Some (s, pos)"
| "track s pos ((a, b) # ms) =
     (case move_piece s a b of
        Some (Inr True, s') \<Rightarrow>
          (case position_to_coords a of
             Inl e \<Rightarrow> None
           | Inr origin \<Rightarrow>
               (case position_to_coords b of
                  Inl e \<Rightarrow> None
                | Inr dest \<Rightarrow>
                    (if origin = pos then track s' dest ms
                     else if dest = pos then None
                     else track s' pos ms)))
      | _ \<Rightarrow> None)"

section \<open>Reading and writing a well-formed board\<close>

lemma wf_grid_new_board: "wf_grid (board new_board)"
  by (simp add: new_board_def setup_board_def wf_grid_def range8_def piece_order_def)

lemma board_at_in_range:
  "wf_grid g \<Longrightarrow> 0 \<le> r \<Longrightarrow> r < 8 \<Longrightarrow> 0 \<le> c \<Longrightarrow> c < 8 \<Longrightarrow>
   board_at g r c = Inr (g ! nat r ! nat c)"
  by (simp add: board_at_def py_index_def py_norm_def wf_grid_def list_all_length)

lemma get_piece_in_range:
  "wf_grid (board s) \<Longrightarrow> 0 \<le> r \<Longrightarrow> r < 8 \<Longrightarrow> 0 \<le> c \<Longrightarrow> c < 8 \<Longrightarrow>
   get_piece s r c = Inr (board s ! nat r ! nat c)"
  by (simp add: get_piece_def board_at_in_range)

lemma get_piece_out_of_range:
  "\<not> (0 \<le> r \<and> r < 8 \<and> 0 \<le> c \<and> c < 8) \<Longrightarrow> get_piece s r c = Inr None"
  by (auto simp: get_piece_def)

section \<open>The null move\<close>

text \<open>
  Claim C10. On every board, \<^verbatim>\<open>is_valid_move(p, p)\<close> returns \<^verbatim>\<open>False\<close> for every
  position \<open>p\<close>, inside the board or not: an empty or outside origin fails the piece
  test, and a piece standing on \<open>p\<close> is its own destination piece of the same colour.
  No rule for rook, queen or king is reached.
\<close>

theorem null_move_rejected:
  assumes "wf_grid (board s)"
  shows "is_valid_move s row col row col = Some (Inr False)"
proof (cases "0 \<le> row \<and> row < 8 \<and> 0 \<le> col \<and> col < 8")
  case False
  then show ?thesis by (simp add: is_valid_move_def get_piece_out_of_range)
next
  case True
  then have "get_piece s row col = Inr (board s ! nat row ! nat col)"
    using assms by (simp add: get_piece_in_range)
  then show ?thesis
    by (simp add: is_valid_move_def split: option.split)
qed

theorem null_move_rejected_witness:
  "wf_grid (board new_board) \<and> is_valid_move new_board 7 0 7 0 = Some (Inr False)"
  using null_move_rejected [OF wf_grid_new_board, of 7 0] wf_grid_new_board by simp

section \<open>Checkmate and stalemate exclude each other\<close>

text \<open>
  Claim C9. In no state, and for no colour, do \<^verbatim>\<open>is_checkmate\<close> and
  \<^verbatim>\<open>is_stalemate\<close> both return \<^verbatim>\<open>True\<close>: both begin with the same call of
  \<^verbatim>\<open>is_in_check\<close> on the same state, and the first needs it true, the second false.
\<close>

theorem checkmate_stalemate_exclusive:
  "\<not> ((\<exists>s1. is_checkmate s clr = Some (Inr True, s1)) \<and>
       (\<exists>s2. is_stalemate s clr = Some (Inr True, s2)))"
  by (auto simp: is_checkmate_def is_stalemate_def split: option.splits sum.splits if_splits)

section \<open>Path clearance\<close>

lemma path_loop_walk:
  assumes wf: "wf_grid g" and dir: "dr \<noteq> 0 \<or> dc \<noteq> 0"
  shows "(\<forall>k<n. is_valid_position (r + int k * dr) (c + int k * dc)) \<Longrightarrow>
     path_loop g dr dc (r + int n * dr) (c + int n * dc) r c =
       Some (Inr (\<forall>k<n. g ! nat (r + int k * dr) ! nat (c + int k * dc) = None))"
proof (induction n arbitrary: r c)
  case 0
  show ?case by (subst path_loop.simps) simp
next
  case (Suc n)
  from Suc.prems have here: "is_valid_position r c"
    by (metis add.right_neutral mult_zero_left of_nat_0 zero_less_Suc)
  have shifted: "\<forall>k<n. is_valid_position ((r + dr) + int k * dr) ((c + dc) + int k * dc)"
  proof (intro allI impI)
    fix k assume "k < n"
    then have "Suc k < Suc n" by simp
    with Suc.prems have "is_valid_position (r + int (Suc k) * dr) (c + int (Suc k) * dc)"
      by blast
    then show "is_valid_position ((r + dr) + int k * dr) ((c + dc) + int k * dc)"
      by (simp add: algebra_simps)
  qed
  have tgt: "r + int (Suc n) * dr = (r + dr) + int n * dr"
            "c + int (Suc n) * dc = (c + dc) + int n * dc"
    by (simp_all add: algebra_simps)
  have ne: "(r, c) \<noteq> (r + int (Suc n) * dr, c + int (Suc n) * dc)"
    using dir by auto
  have cell: "board_at g r c = Inr (g ! nat r ! nat c)"
    using wf here by (simp add: board_at_in_range is_valid_position_def)
  have rest: "(\<forall>k<n. g ! nat (r + dr + int k * dr) ! nat (c + dc + int k * dc) = None) =
              (\<forall>k<n. g ! nat (r + int (Suc k) * dr) ! nat (c + int (Suc k) * dc) = None)"
    by (simp add: algebra_simps)
  show ?case
    apply (subst path_loop.simps)
    apply (simp only: ne cell if_True sum.case)
    apply (simp only: tgt Suc.IH [OF shifted] rest)
    apply (simp add: All_less_Suc2)
    done
qed


lemma step_dir_cases: "step_dir a b = 0 \<or> step_dir a b = 1 \<or> step_dir a b = - 1"
  by (simp add: step_dir_def)

lemma step_dir_rev: "step_dir b a = - step_dir a b"
  by (simp add: step_dir_def)

lemma span_rev: "span br bc ar ac = span ar ac br bc"
  by (simp add: span_def abs_minus_commute)

lemma aligned_target:
  assumes "aligned ar ac br bc"
  shows "br = ar + int (span ar ac br bc) * step_dir ar br"
    and "bc = ac + int (span ar ac br bc) * step_dir ac bc"
  using assms by (auto simp: aligned_def span_def step_dir_def max_def)

lemma aligned_between:
  assumes al: "aligned ar ac br bc" and a: "is_valid_position ar ac" and b: "is_valid_position br bc"
    and k: "k \<le> span ar ac br bc"
  shows "is_valid_position (ar + int k * step_dir ar br) (ac + int k * step_dir ac bc)"
proof -
  have "int k \<le> max \<bar>br - ar\<bar> \<bar>bc - ac\<bar>" using k by (simp add: span_def)
  then show ?thesis
    using al a b by (auto simp: aligned_def is_valid_position_def step_dir_def max_def split: if_splits)
qed

lemma is_path_clear_aligned:
  assumes wf: "wf_grid (board s)" and al: "aligned ar ac br bc"
    and a: "is_valid_position ar ac" and b: "is_valid_position br bc"
  shows "is_path_clear s ar ac br bc =
     Some (Inr (\<forall>k. 0 < k \<and> k < span ar ac br bc \<longrightarrow>
       board s ! nat (ar + int k * step_dir ar br) ! nat (ac + int k * step_dir ac bc) = None))"
proof (cases "span ar ac br bc")
  case 0
  with aligned_target [OF al] have same: "br = ar" "bc = ac" by simp_all
  show ?thesis
    unfolding is_path_clear_def Let_def same
    by (subst path_loop.simps) (simp add: step_dir_def span_def)
next
  case (Suc m)
  let ?dr = "step_dir ar br" and ?dc = "step_dir ac bc"
  have dir: "?dr \<noteq> 0 \<or> ?dc \<noteq> 0"
    using Suc by (auto simp: span_def step_dir_def split: if_splits)
  have cells: "\<forall>k<m. is_valid_position ((ar + ?dr) + int k * ?dr) ((ac + ?dc) + int k * ?dc)"
  proof (intro allI impI)
    fix k assume "k < m"
    then have "Suc k \<le> span ar ac br bc" using Suc by simp
    from aligned_between [OF al a b this]
    show "is_valid_position ((ar + ?dr) + int k * ?dr) ((ac + ?dc) + int k * ?dc)"
      by (simp add: algebra_simps)
  qed
  have tgt: "br = (ar + ?dr) + int m * ?dr" "bc = (ac + ?dc) + int m * ?dc"
    using aligned_target [OF al] Suc by (simp_all add: algebra_simps)
  have walk: "path_loop (board s) ?dr ?dc br bc (ar + ?dr) (ac + ?dc) =
      Some (Inr (\<forall>k<m. board s ! nat ((ar + ?dr) + int k * ?dr) ! nat ((ac + ?dc) + int k * ?dc) = None))"
    using path_loop_walk [OF wf dir cells] tgt by simp
  have shift: "(\<forall>k<m. board s ! nat ((ar + ?dr) + int k * ?dr) ! nat ((ac + ?dc) + int k * ?dc) = None) =
      (\<forall>k. 0 < k \<and> k < Suc m \<longrightarrow> board s ! nat (ar + int k * ?dr) ! nat (ac + int k * ?dc) = None)"
    (is "?L = ?R")
  proof
    assume l: ?L
    show ?R
    proof (intro allI impI)
      fix k assume "0 < k \<and> k < Suc m"
      then obtain j where "k = Suc j" "j < m" by (cases k) auto
      with l show "board s ! nat (ar + int k * ?dr) ! nat (ac + int k * ?dc) = None"
        by (simp add: algebra_simps)
    qed
  next
    assume r: ?R
    show ?L
    proof (intro allI impI)
      fix k assume "k < m"
      then have "0 < Suc k \<and> Suc k < Suc m" by simp
      with r have "board s ! nat (ar + int (Suc k) * ?dr) ! nat (ac + int (Suc k) * ?dc) = None"
        by blast
      then show "board s ! nat ((ar + ?dr) + int k * ?dr) ! nat ((ac + ?dc) + int k * ?dc) = None"
        by (simp add: algebra_simps)
    qed
  qed
  show ?thesis
    unfolding is_path_clear_def Let_def walk shift Suc ..
qed

text \<open>
  Claim C8. On an 8 by 8 board, for two positions of the board that share a row, a column
  or a diagonal, \<^verbatim>\<open>is_path_clear(a, b)\<close> and \<^verbatim>\<open>is_path_clear(b, a)\<close> both
  return, and return the same value: each says that every cell strictly between the two
  is empty.
\<close>

theorem path_clear_symmetric:
  assumes wf: "wf_grid (board s)" and al: "aligned ar ac br bc"
    and a: "is_valid_position ar ac" and b: "is_valid_position br bc"
  shows "\<exists>v. is_path_clear s ar ac br bc = Some (Inr v) \<and>
             is_path_clear s br bc ar ac = Some (Inr v)"
proof -
  let ?n = "span ar ac br bc"
  let ?dr = "step_dir ar br" and ?dc = "step_dir ac bc"
  have al': "aligned br bc ar ac"
    using al by (auto simp: aligned_def abs_minus_commute)
  have rev_walk: "is_path_clear s br bc ar ac =
     Some (Inr (\<forall>k. 0 < k \<and> k < ?n \<longrightarrow>
       board s ! nat (br - int k * ?dr) ! nat (bc - int k * ?dc) = None))"
    using is_path_clear_aligned [OF wf al' b a]
    by (simp add: span_rev [of ar ac br bc] step_dir_rev [of ar br] step_dir_rev [of ac bc])
  have mirror: "br - int k * ?dr = ar + int (?n - k) * ?dr \<and> bc - int k * ?dc = ac + int (?n - k) * ?dc"
    if "k < ?n" for k
  proof -
    from that have "int (?n - k) = int ?n - int k" by simp
    then show ?thesis
      using aligned_target [OF al] by (simp add: algebra_simps)
  qed
  have "(\<forall>k. 0 < k \<and> k < ?n \<longrightarrow> board s ! nat (br - int k * ?dr) ! nat (bc - int k * ?dc) = None) =
        (\<forall>k. 0 < k \<and> k < ?n \<longrightarrow> board s ! nat (ar + int k * ?dr) ! nat (ac + int k * ?dc) = None)"
    (is "?L = ?R")
  proof
    assume l: ?L
    show ?R
    proof (intro allI impI)
      fix k assume k: "0 < k \<and> k < ?n"
      then have j: "0 < ?n - k \<and> ?n - k < ?n" by arith
      from k have "?n - (?n - k) = k" by arith
      with mirror [of "?n - k"] j l show "board s ! nat (ar + int k * ?dr) ! nat (ac + int k * ?dc) = None"
        by (metis)
    qed
  next
    assume r: ?R
    show ?L
    proof (intro allI impI)
      fix k assume k: "0 < k \<and> k < ?n"
      then have j: "0 < ?n - k \<and> ?n - k < ?n" by arith
      with mirror [of k] k r show "board s ! nat (br - int k * ?dr) ! nat (bc - int k * ?dc) = None"
        by (metis)
    qed
  qed
  with rev_walk is_path_clear_aligned [OF wf al a b] show ?thesis by simp
qed

theorem path_clear_symmetric_witness:
  "wf_grid (board new_board) \<and> aligned 2 0 5 3 \<and> is_valid_position 2 0 \<and>
   is_valid_position 5 3 \<and>
   (\<exists>v. is_path_clear new_board 2 0 5 3 = Some (Inr v) \<and>
        is_path_clear new_board 5 3 2 0 = Some (Inr v))"
proof -
  have al: "aligned 2 0 5 3" by (simp add: aligned_def)
  have a: "is_valid_position 2 0" and b: "is_valid_position 5 3"
    by (simp_all add: is_valid_position_def)
  from path_clear_symmetric [OF wf_grid_new_board al a b] wf_grid_new_board al a b
  show ?thesis by simp
qed

section \<open>Cell updates\<close>

lemma wf_grid_length: "wf_grid g \<Longrightarrow> length g = 8"
  by (simp add: wf_grid_def)

lemma wf_grid_row: "wf_grid g \<Longrightarrow> i < 8 \<Longrightarrow> length (g ! i) = 8"
  by (simp add: wf_grid_def list_all_length)

lemma board_set_in_range:
  assumes "wf_grid g" and "is_valid_position r c"
  shows "board_set g r c v = Inr (put g r c v)"
proof -
  from assms(2) have r: "0 \<le> r" "r < 8" "nat r < 8" and c: "0 \<le> c" "c < 8"
    by (auto simp: is_valid_position_def)
  show ?thesis
    using r c by (simp add: board_set_def put_def py_norm_def
        wf_grid_length [OF assms(1)] wf_grid_row [OF assms(1) r(3)])
qed

lemma wf_grid_put:
  assumes "wf_grid g"
  shows "wf_grid (put g r c v)"
proof -
  have "length (put g r c v ! i) = 8" if "i < 8" for i
    using that wf_grid_row [OF assms that] wf_grid_length [OF assms]
    by (cases "i = nat r") (simp_all add: put_def)
  then show ?thesis
    using wf_grid_length [OF assms] by (simp add: wf_grid_def list_all_length put_def)
qed

lemma put_read:
  "wf_grid g \<Longrightarrow> is_valid_position r c \<Longrightarrow> is_valid_position r' c' \<Longrightarrow>
   put g r c v ! nat r' ! nat c' = (if (r', c') = (r, c) then v else g ! nat r' ! nat c')"
proof -
  assume wf: "wf_grid g" and a: "is_valid_position r c" and b: "is_valid_position r' c'"
  from a b have n: "nat r < 8" "nat c < 8" "nat r' < 8" "nat c' < 8"
    and nn: "0 \<le> r" "0 \<le> c" "0 \<le> r'" "0 \<le> c'"
    by (auto simp: is_valid_position_def)
  have eq: "(nat r' = nat r) = (r' = r)" "(nat c' = nat c) = (c' = c)"
    using nn by auto
  show ?thesis
    using n eq wf_grid_length [OF wf] wf_grid_row [OF wf n(1)]
    by (auto simp: put_def nth_list_update)
qed

lemma grid_eqI:
  assumes "wf_grid g" "wf_grid h"
    and "\<And>r c. is_valid_position r c \<Longrightarrow> g ! nat r ! nat c = h ! nat r ! nat c"
  shows "g = h"
proof (rule nth_equalityI)
  show "length g = length h" using assms by (simp add: wf_grid_def)
next
  fix i assume i: "i < length g"
  then have i8: "i < 8" using assms by (simp add: wf_grid_def)
  show "g ! i = h ! i"
  proof (rule nth_equalityI)
    show "length (g ! i) = length (h ! i)"
      using assms i8 by (simp add: wf_grid_def list_all_length)
  next
    fix j assume "j < length (g ! i)"
    then have "j < 8" using assms i8 by (simp add: wf_grid_def list_all_length)
    with i8 have "is_valid_position (int i) (int j)" by (simp add: is_valid_position_def)
    from assms(3) [OF this] show "g ! i ! j = h ! i ! j" by simp
  qed
qed

lemma restore_board:
  assumes wf: "wf_grid g" and f: "is_valid_position fr fc" and t: "is_valid_position tr tc"
  shows "put (put (put (put g tr tc (g ! nat fr ! nat fc)) fr fc None) fr fc (g ! nat fr ! nat fc))
           tr tc (g ! nat tr ! nat tc) = g"
proof (rule grid_eqI)
  show "wf_grid (put (put (put (put g tr tc (g ! nat fr ! nat fc)) fr fc None) fr fc (g ! nat fr ! nat fc))
           tr tc (g ! nat tr ! nat tc))"
    using wf by (intro wf_grid_put)
  show "wf_grid g" by fact
next
  fix r c assume "is_valid_position r c"
  then show "put (put (put (put g tr tc (g ! nat fr ! nat fc)) fr fc None) fr fc (g ! nat fr ! nat fc))
           tr tc (g ! nat tr ! nat tc) ! nat r ! nat c = g ! nat r ! nat c"
    using wf f t by (auto simp: put_read wf_grid_put)
qed

lemma would_be_in_check_unfold:
  assumes wf: "wf_grid (board s)" and f: "is_valid_position fr fc" and t: "is_valid_position tr tc"
  shows "would_be_in_check_after_move s fr fc tr tc =
     (case is_in_check (s\<lparr>board := put (put (board s) tr tc (board s ! nat fr ! nat fc)) fr fc None\<rparr>)
             (current_player s) of
        None \<Rightarrow> None
      | Some (Inl e) \<Rightarrow>
          Some (Inl e, s\<lparr>board := put (put (board s) tr tc (board s ! nat fr ! nat fc)) fr fc None\<rparr>)
      | Some (Inr v) \<Rightarrow> Some (Inr v, s))"
proof -
  have f': "0 \<le> fr" "fr < 8" "0 \<le> fc" "fc < 8" and t': "0 \<le> tr" "tr < 8" "0 \<le> tc" "tc < 8"
    using f t by (simp_all add: is_valid_position_def)
  show ?thesis
    unfolding would_be_in_check_after_move_def
    by (simp add: board_at_in_range [OF wf f'] board_at_in_range [OF wf t']
        board_set_in_range wf f t wf_grid_put restore_board
        split: option.split sum.split)
qed

section \<open>The queries return\<close>

text \<open>
  On an 8 by 8 board no query raises \<^verbatim>\<open>IndexError\<close> and the loop of
  \<^verbatim>\<open>is_path_clear\<close> ends: the move rules return a Boolean, and \<^verbatim>\<open>is_in_check\<close>
  returns one unless \<^verbatim>\<open>find_king\<close> raises \<^verbatim>\<open>ValueError\<close>.
\<close>

lemma squares_valid: "(r, c) \<in> set squares \<Longrightarrow> is_valid_position r c"
  by (auto simp: squares_def range8_def is_valid_position_def)

lemma get_piece_returns: "wf_grid (board s) \<Longrightarrow> \<exists>x. get_piece s r c = Inr x"
  by (cases "0 \<le> r \<and> r < 8 \<and> 0 \<le> c \<and> c < 8")
     (simp_all add: get_piece_in_range get_piece_out_of_range)

lemma get_piece_no_error: "wf_grid (board s) \<Longrightarrow> get_piece s r c \<noteq> Inl e"
  using get_piece_returns [of s r c] by auto

lemma get_piece_Some_valid:
  "get_piece s r c = Inr (Some p) \<Longrightarrow> is_valid_position r c"
  by (auto simp: get_piece_def is_valid_position_def split: if_splits)

lemma is_valid_pawn_move_returns:
  assumes wf: "wf_grid (board s)" and p: "get_piece s fr fc = Inr (Some p)"
  shows "\<exists>v. is_valid_pawn_move s fr fc tr tc = Inr v"
  using get_piece_no_error [OF wf]
  by (auto simp: is_valid_pawn_move_def p Let_def split: sum.split)

lemma is_valid_rook_move_returns:
  assumes "wf_grid (board s)" "is_valid_position fr fc" "is_valid_position tr tc"
  shows "\<exists>v. is_valid_rook_move s fr fc tr tc = Some (Inr v)"
proof (cases "fr \<noteq> tr \<and> fc \<noteq> tc")
  case True
  then show ?thesis by (auto simp: is_valid_rook_move_def)
next
  case False
  then have "aligned fr fc tr tc" by (auto simp: aligned_def)
  from is_path_clear_aligned [OF assms(1) this assms(2,3)] False
  show ?thesis by (auto simp: is_valid_rook_move_def)
qed

lemma is_valid_bishop_move_returns:
  assumes "wf_grid (board s)" "is_valid_position fr fc" "is_valid_position tr tc"
  shows "\<exists>v. is_valid_bishop_move s fr fc tr tc = Some (Inr v)"
proof (cases "\<bar>tr - fr\<bar> \<noteq> \<bar>tc - fc\<bar>")
  case True
  then show ?thesis by (auto simp: is_valid_bishop_move_def)
next
  case False
  then have "aligned fr fc tr tc" by (simp add: aligned_def)
  from is_path_clear_aligned [OF assms(1) this assms(2,3)] False
  show ?thesis by (auto simp: is_valid_bishop_move_def)
qed

lemma is_valid_queen_move_returns:
  assumes "wf_grid (board s)" "is_valid_position fr fc" "is_valid_position tr tc"
  shows "\<exists>v. is_valid_queen_move s fr fc tr tc = Some (Inr v)"
proof -
  obtain r where r: "is_valid_rook_move s fr fc tr tc = Some (Inr r)"
    using is_valid_rook_move_returns [OF assms] by blast
  obtain b where b: "is_valid_bishop_move s fr fc tr tc = Some (Inr b)"
    using is_valid_bishop_move_returns [OF assms] by blast
  show ?thesis by (auto simp: is_valid_queen_move_def r b)
qed

lemma is_valid_move_returns:
  assumes wf: "wf_grid (board s)"
  shows "\<exists>v. is_valid_move s fr fc tr tc = Some (Inr v)"
proof -
  obtain x where x: "get_piece s fr fc = Inr x" using get_piece_returns [OF wf] by blast
  obtain d where d: "get_piece s tr tc = Inr d" using get_piece_returns [OF wf] by blast
  show ?thesis
  proof (cases x)
    case None
    then show ?thesis by (auto simp: is_valid_move_def x)
  next
    case (Some p)
    with x have f: "is_valid_position fr fc" by (simp add: get_piece_Some_valid)
    show ?thesis
    proof (cases "is_valid_position tr tc")
      case False
      then show ?thesis by (auto simp: is_valid_move_def x Some)
    next
      case t: True
      obtain pv where pv: "is_valid_pawn_move s fr fc tr tc = Inr pv"
        using is_valid_pawn_move_returns [OF wf] x Some by blast
      obtain rv where rv: "is_valid_rook_move s fr fc tr tc = Some (Inr rv)"
        using is_valid_rook_move_returns [OF wf f t] by blast
      obtain bv where bv: "is_valid_bishop_move s fr fc tr tc = Some (Inr bv)"
        using is_valid_bishop_move_returns [OF wf f t] by blast
      obtain qv where qv: "is_valid_queen_move s fr fc tr tc = Some (Inr qv)"
        using is_valid_queen_move_returns [OF wf f t] by blast
      show ?thesis
        by (auto simp: is_valid_move_def x Some d t pv rv bv qv split: piece_type.split)
    qed
  qed
qed

lemma in_check_loop_returns:
  assumes wf: "wf_grid (board s)"
  shows "(\<forall>(r, c) \<in> set sq. is_valid_position r c) \<Longrightarrow>
         \<exists>v. in_check_loop s clr kr kc sq = Some (Inr v)"
proof (induction sq)
  case Nil
  show ?case by auto
next
  case (Cons a sq)
  obtain r c where a: "a = (r, c)" by (cases a)
  with Cons.prems have v: "0 \<le> r" "r < 8" "0 \<le> c" "c < 8"
    by (simp_all add: is_valid_position_def)
  obtain w where w: "is_valid_move s r c kr kc = Some (Inr w)"
    using is_valid_move_returns [OF wf] by blast
  from Cons.IH Cons.prems obtain u where u: "in_check_loop s clr kr kc sq = Some (Inr u)"
    by auto
  show ?case
    by (auto simp: a board_at_in_range [OF wf v] w u split: option.split)
qed

lemma find_king_loop_result:
  assumes wf: "wf_grid (board s)"
  shows "(\<forall>(r, c) \<in> set sq. is_valid_position r c) \<Longrightarrow>
         find_king_loop s clr sq = Inl ValueError \<or> (\<exists>r c. find_king_loop s clr sq = Inr (r, c))"
proof (induction sq)
  case Nil
  show ?case by simp
next
  case (Cons a sq)
  obtain r c where a: "a = (r, c)" by (cases a)
  with Cons.prems have v: "0 \<le> r" "r < 8" "0 \<le> c" "c < 8"
    by (simp_all add: is_valid_position_def)
  from Cons.IH Cons.prems
  have "find_king_loop s clr sq = Inl ValueError \<or> (\<exists>r c. find_king_loop s clr sq = Inr (r, c))"
    by auto
  then show ?case
    by (auto simp: a board_at_in_range [OF wf v] split: option.split)
qed

lemma is_in_check_result:
  assumes wf: "wf_grid (board s)"
  shows "(find_king s clr = Inl ValueError \<and> is_in_check s clr = Some (Inl ValueError)) \<or>
         (find_king s clr \<noteq> Inl ValueError \<and> (\<exists>v. is_in_check s clr = Some (Inr v)))"
proof -
  have sq: "\<forall>(r, c) \<in> set squares. is_valid_position r c"
    using squares_valid by auto
  from find_king_loop_result [OF wf sq, of clr]
  show ?thesis
  proof
    assume "find_king_loop s clr squares = Inl ValueError"
    then show ?thesis by (simp add: is_in_check_def find_king_def)
  next
    assume "\<exists>r c. find_king_loop s clr squares = Inr (r, c)"
    then obtain r c where k: "find_king_loop s clr squares = Inr (r, c)" by blast
    obtain v where "in_check_loop s clr r c squares = Some (Inr v)"
      using in_check_loop_returns [OF wf sq] by blast
    with k show ?thesis by (simp add: is_in_check_def find_king_def)
  qed
qed

lemma position_to_coords_valid:
  "position_to_coords p = Inr (r, c) \<Longrightarrow> is_valid_position r c"
  by (auto simp: position_to_coords_def is_valid_position_def Let_def
      split: if_splits sum.splits)

lemma commit_move_not_False:
  "commit_move s a b fr fc tr tc \<noteq> Some (Inr False, s')"
  by (auto simp: commit_move_def Let_def split: sum.splits option.splits if_splits)

lemma would_be_in_check_returned:
  assumes wf: "wf_grid (board s)"
    and f: "is_valid_position fr fc" and t: "is_valid_position tr tc"
    and r: "would_be_in_check_after_move s fr fc tr tc = Some (Inr v, s1)"
  shows "s1 = s"
  using r unfolding would_be_in_check_unfold [OF wf f t]
  by (auto split: option.splits sum.splits)

section \<open>The simulation restores the board\<close>

text \<open>
  Claim C4, as stated, fails: the restoring assignments come after the call of
  \<^verbatim>\<open>is_in_check\<close> with no \<^verbatim>\<open>finally\<close>, so when \<^verbatim>\<open>find_king\<close> raises they are
  skipped. On the initial board, with the empty square (4, 4) as origin and the white
  King's square (7, 4) as destination, the call raises \<^verbatim>\<open>ValueError\<close> and the board
  is left without the white King.
\<close>

theorem would_be_in_check_restores_counterexample:
  "wf_grid (board new_board) \<and> is_valid_position 4 4 \<and> is_valid_position 7 4 \<and>
   map_option fst (would_be_in_check_after_move new_board 4 4 7 4) = Some (Inl ValueError) \<and>
   map_option (board \<circ> snd) (would_be_in_check_after_move new_board 4 4 7 4)
     \<noteq> Some (board new_board) \<and>
   would_be_in_check_repeated 1 new_board 4 4 7 4 \<noteq> Some new_board"
  by code_simp

text \<open>
  Claim C4, amended. On an 8 by 8 board and for positions of the board, whenever the King
  of the current player is on the board after the tentative move, the call returns a
  Boolean and leaves the whole state as it was; so does any number of calls in a row.
\<close>

theorem would_be_in_check_restores:
  assumes wf: "wf_grid (board s)"
    and f: "is_valid_position fr fc" and t: "is_valid_position tr tc"
    and king: "find_king (tentative s fr fc tr tc) (current_player s) \<noteq> Inl ValueError"
  shows "(\<exists>v. would_be_in_check_after_move s fr fc tr tc = Some (Inr v, s)) \<and>
         would_be_in_check_repeated n s fr fc tr tc = Some s"
proof -
  have "wf_grid (board (tentative s fr fc tr tc))"
    using wf by (simp add: tentative_def wf_grid_put)
  from is_in_check_result [OF this, of "current_player s"] king
  obtain v where "is_in_check (tentative s fr fc tr tc) (current_player s) = Some (Inr v)"
    by blast
  then have one: "would_be_in_check_after_move s fr fc tr tc = Some (Inr v, s)"
    by (simp add: would_be_in_check_unfold [OF wf f t] tentative_def)
  have "would_be_in_check_repeated n s fr fc tr tc = Some s"
    by (induction n) (simp_all add: one)
  with one show ?thesis by blast
qed

theorem would_be_in_check_restores_witness:
  "wf_grid (board new_board) \<and> is_valid_position 6 4 \<and> is_valid_position 4 4 \<and>
   find_king (tentative new_board 6 4 4 4) (current_player new_board) \<noteq> Inl ValueError \<and>
   (\<exists>v. would_be_in_check_after_move new_board 6 4 4 4 = Some (Inr v, new_board)) \<and>
   would_be_in_check_repeated 3 new_board 6 4 4 4 = Some new_board"
proof -
  have f: "is_valid_position 6 4" and t: "is_valid_position 4 4"
    by (simp_all add: is_valid_position_def)
  have king: "find_king (tentative new_board 6 4 4 4) (current_player new_board) \<noteq> Inl ValueError"
    by code_simp
  from would_be_in_check_restores [OF wf_grid_new_board f t king, of 3]
    wf_grid_new_board f t king
  show ?thesis by simp
qed

section \<open>A rejected move changes nothing\<close>

text \<open>
  Claim C5. On an 8 by 8 board, whenever \<^verbatim>\<open>move_piece\<close> returns \<^verbatim>\<open>False\<close> (for a
  position string that does not parse, for a move that \<^verbatim>\<open>is_valid_move\<close> refuses, or
  for one that \<^verbatim>\<open>would_be_in_check_after_move\<close> refuses) the state after the call is
  the state before it: board, current player and history.
\<close>

theorem rejected_move_changes_nothing:
  assumes wf: "wf_grid (board s)"
    and rej: "move_piece s from_pos to_pos = Some (Inr False, s')"
  shows "s' = s"
proof (cases "position_to_coords from_pos")
  case (Inl e)
  with rej show ?thesis by (simp add: move_piece_def split: if_splits)
next
  case f: (Inr a)
  obtain fr fc where a: "a = (fr, fc)" by (cases a)
  show ?thesis
  proof (cases "position_to_coords to_pos")
    case (Inl e)
    with rej f a show ?thesis by (simp add: move_piece_def split: if_splits)
  next
    case t: (Inr b)
    obtain tr tc where b: "b = (tr, tc)" by (cases b)
    have vf: "is_valid_position fr fc" and vt: "is_valid_position tr tc"
      using f t a b by (simp_all add: position_to_coords_valid)
    obtain v where v: "is_valid_move s fr fc tr tc = Some (Inr v)"
      using is_valid_move_returns [OF wf] by blast
    show ?thesis
    proof (cases v)
      case False
      with rej f t a b v show ?thesis by (simp add: move_piece_def)
    next
      case True
      show ?thesis
      proof (cases "would_be_in_check_after_move s fr fc tr tc")
        case None
        with rej f t a b v True show ?thesis by (simp add: move_piece_def)
      next
        case (Some res)
        obtain out s1 where res: "res = (out, s1)" by (cases res)
        show ?thesis
        proof (cases out)
          case (Inl e)
          with rej f t a b v True Some res show ?thesis by (simp add: move_piece_def)
        next
          case (Inr w)
          with Some res have s1: "s1 = s"
            using would_be_in_check_returned [OF wf vf vt] by simp
          from rej f t a b v True Some res Inr s1 show ?thesis
            by (cases w) (simp_all add: move_piece_def commit_move_not_False)
        qed
      qed
    qed
  qed
qed

theorem rejected_move_changes_nothing_witness:
  "wf_grid (board new_board) \<and>
   move_piece new_board (pystr ''e2'') (pystr ''e5'') = Some (Inr False, new_board)"
proof -
  have r: "move_piece new_board (pystr ''e2'') (pystr ''e5'') = Some (Inr False, new_board)"
    by code_simp
  from rejected_move_changes_nothing [OF wf_grid_new_board r] r wf_grid_new_board
  show ?thesis by simp
qed

section \<open>An accepted move\<close>

lemma commit_move_result:
  assumes wf: "wf_grid (board s)"
    and f: "is_valid_position fr fc" and t: "is_valid_position tr tc"
    and ne: "(fr, fc) \<noteq> (tr, tc)"
  shows "commit_move s a b fr fc tr tc =
     (case board s ! nat fr ! nat fc of
        None \<Rightarrow> Some (Inl AttributeError,
                   s\<lparr>board := put (put (board s) tr tc None) fr fc None\<rparr>)
      | Some q \<Rightarrow>
          Some (Inr True,
            s\<lparr>board := put (put (put (board s) tr tc (Some q)) fr fc None) tr tc
                        (Some (q\<lparr>has_moved := True\<rparr>)),
              move_history := move_history s @
                [\<lparr>mv_from = a, mv_to = b, mv_piece = q\<lparr>has_moved := True\<rparr>,
                  mv_captured = board s ! nat tr ! nat tc\<rparr>],
              current_player := other_color (current_player s)\<rparr>))"
proof -
  have f': "0 \<le> fr" "fr < 8" "0 \<le> fc" "fc < 8" and t': "0 \<le> tr" "tr < 8" "0 \<le> tc" "tc < 8"
    using f t by (simp_all add: is_valid_position_def)
  show ?thesis
    using ne unfolding commit_move_def
    by (auto simp: board_at_in_range [OF wf f'] board_at_in_range [OF wf t']
        board_set_in_range wf f t wf_grid_put Let_def split: option.split)
qed

lemma move_piece_accepted:
  assumes wf: "wf_grid (board s0)"
    and acc: "move_piece s0 a b = Some (Inr True, s)"
  shows "\<exists>fr fc tr tc q.
     position_to_coords a = Inr (fr, fc) \<and> position_to_coords b = Inr (tr, tc) \<and>
     is_valid_move s0 fr fc tr tc = Some (Inr True) \<and>
     board s0 ! nat fr ! nat fc = Some q \<and>
     board s = put (put (put (board s0) tr tc (Some q)) fr fc None) tr tc
                 (Some (q\<lparr>has_moved := True\<rparr>)) \<and>
     current_player s = other_color (current_player s0)"
proof (cases "position_to_coords a")
  case (Inl e)
  with acc show ?thesis by (simp add: move_piece_def split: if_splits)
next
  case f: (Inr x)
  obtain fr fc where x: "x = (fr, fc)" by (cases x)
  show ?thesis
  proof (cases "position_to_coords b")
    case (Inl e)
    with acc f x show ?thesis by (simp add: move_piece_def split: if_splits)
  next
    case t: (Inr y)
    obtain tr tc where y: "y = (tr, tc)" by (cases y)
    have vf: "is_valid_position fr fc" and vt: "is_valid_position tr tc"
      using f t x y by (simp_all add: position_to_coords_valid)
    obtain v where v: "is_valid_move s0 fr fc tr tc = Some (Inr v)"
      using is_valid_move_returns [OF wf] by blast
    show ?thesis
    proof (cases v)
      case False
      with acc f t x y v show ?thesis by (simp add: move_piece_def)
    next
      case True
      have ne: "(fr, fc) \<noteq> (tr, tc)"
        using null_move_rejected [OF wf, of fr fc] v True by auto
      show ?thesis
      proof (cases "would_be_in_check_after_move s0 fr fc tr tc")
        case None
        with acc f t x y v True show ?thesis by (simp add: move_piece_def)
      next
        case (Some res)
        obtain out s1 where res: "res = (out, s1)" by (cases res)
        show ?thesis
        proof (cases out)
          case (Inl e)
          with acc f t x y v True Some res show ?thesis by (simp add: move_piece_def)
        next
          case (Inr w)
          with Some res have s1: "s1 = s0"
            using would_be_in_check_returned [OF wf vf vt] by simp
          from acc f t x y v True Some res Inr s1
          have w: "\<not> w" and c: "commit_move s0 a b fr fc tr tc = Some (Inr True, s)"
            by (auto simp: move_piece_def split: if_splits)
          from c obtain q where q: "board s0 ! nat fr ! nat fc = Some q"
            and s: "s = s0\<lparr>board := put (put (put (board s0) tr tc (Some q)) fr fc None) tr tc
                        (Some (q\<lparr>has_moved := True\<rparr>)),
              move_history := move_history s0 @
                [\<lparr>mv_from = a, mv_to = b, mv_piece = q\<lparr>has_moved := True\<rparr>,
                  mv_captured = board s0 ! nat tr ! nat tc\<rparr>],
              current_player := other_color (current_player s0)\<rparr>"
            unfolding commit_move_result [OF wf vf vt ne]
            by (auto split: option.splits)
          show ?thesis
            using f t x y v True q s by simp
        qed
      qed
    qed
  qed
qed

lemma moved_piece_has_moved:
  assumes wf: "wf_grid (board s0)"
    and acc: "move_piece s0 a b = Some (Inr True, s)"
    and b: "position_to_coords b = Inr (tr, tc)"
    and p: "get_piece s tr tc = Inr (Some p)"
  shows "has_moved p"
proof -
  from move_piece_accepted [OF wf acc] b obtain fr fc q where
    bs: "board s = put (put (put (board s0) tr tc (Some q)) fr fc None) tr tc
                 (Some (q\<lparr>has_moved := True\<rparr>))"
    by auto
  have vt: "is_valid_position tr tc" using b by (rule position_to_coords_valid)
  then have t': "0 \<le> tr" "tr < 8" "0 \<le> tc" "tc < 8" by (simp_all add: is_valid_position_def)
  have wfs: "wf_grid (board s)" using wf bs by (simp add: wf_grid_put)
  have "board s ! nat tr ! nat tc = Some (q\<lparr>has_moved := True\<rparr>)"
    unfolding bs using wf vt by (simp add: put_read wf_grid_put)
  with p get_piece_in_range [OF wfs t'] have "p = q\<lparr>has_moved := True\<rparr>" by simp
  then show ?thesis by simp
qed

section \<open>Pawn moves\<close>

lemma pawn_move_rule:
  assumes wf: "wf_grid (board s)"
    and p: "get_piece s fr fc = Inr (Some p)"
    and t: "is_valid_position tr tc"
  shows "is_valid_pawn_move s fr fc tr tc = Inr (pawn_rule s p fr fc tr tc)"
proof -
  have f: "is_valid_position fr fc" using p by (rule get_piece_Some_valid)
  have t': "0 \<le> tr" "tr < 8" "0 \<le> tc" "tc < 8" using t by (simp_all add: is_valid_position_def)
  have f': "0 \<le> fr" "fr < 8" "0 \<le> fc" "fc < 8" using f by (simp_all add: is_valid_position_def)
  have dest: "get_piece s tr tc = Inr (cell s tr tc)"
    using get_piece_in_range [OF wf t'] by (simp add: cell_def)
  have mid: "get_piece s (fr + direction p) fc = Inr (cell s (fr + direction p) fc)"
    if "tr = fr + 2 * direction p"
  proof -
    from that t' f' have "0 \<le> fr + direction p" "fr + direction p < 8"
      by (auto simp: direction_def split: if_splits)
    from get_piece_in_range [OF wf this f'(3,4)] show ?thesis by (simp add: cell_def)
  qed
  show ?thesis
  proof (cases "tr = fr + 2 * direction p")
    case True
    with mid have m: "get_piece s (fr + direction p) fc = Inr (cell s (fr + direction p) fc)" by simp
    have ne: "fr + 2 * direction p \<noteq> fr + direction p" by (simp add: direction_def)
    show ?thesis
      using m ne True dest unfolding is_valid_pawn_move_def pawn_rule_def Let_def p
      by (auto simp: direction_def split: option.splits)
  next
    case False
    then show ?thesis
      using dest unfolding is_valid_pawn_move_def pawn_rule_def Let_def p
      by (auto simp: direction_def split: option.splits)
  qed
qed

lemma moved_pawn_no_double_step:
  assumes wf: "wf_grid (board s)"
    and p: "get_piece s fr fc = Inr (Some p)" and pawn: "piece_type p = PAWN"
    and m: "has_moved p"
  shows "is_valid_move s fr fc (fr + 2 * direction p) fc = Some (Inr False)"
proof (cases "is_valid_position (fr + 2 * direction p) fc")
  case False
  then show ?thesis by (simp add: is_valid_move_def p)
next
  case True
  have ne: "fr + 2 * direction p \<noteq> fr + direction p" by (simp add: direction_def)
  from pawn_move_rule [OF wf p True] m ne
  have "is_valid_pawn_move s fr fc (fr + 2 * direction p) fc = Inr False"
    by (simp add: pawn_rule_def)
  moreover obtain d where "get_piece s (fr + 2 * direction p) fc = Inr d"
    using get_piece_returns [OF wf] by blast
  ultimately show ?thesis
    by (simp add: is_valid_move_def p pawn True split: option.split)
qed

text \<open>
  An accepted move changes two cells: the origin becomes empty and the destination holds
  the moved piece with \<^verbatim>\<open>has_moved\<close> set. A pawn that has moved therefore keeps its
  flag, its colour and its kind through every later move, wherever it goes, until it is
  captured.
\<close>

lemma accepted_move_cells:
  assumes wf: "wf_grid (board s)"
    and acc: "move_piece s a b = Some (Inr True, s')"
  shows "\<exists>fr fc tr tc q.
     position_to_coords a = Inr (fr, fc) \<and> position_to_coords b = Inr (tr, tc) \<and>
     is_valid_position fr fc \<and> is_valid_position tr tc \<and>
     wf_grid (board s') \<and>
     cell s fr fc = Some q \<and>
     cell s' tr tc = Some (q\<lparr>has_moved := True\<rparr>) \<and>
     (\<forall>r c. is_valid_position r c \<and> (r, c) \<noteq> (fr, fc) \<and> (r, c) \<noteq> (tr, tc) \<longrightarrow>
        cell s' r c = cell s r c)"
proof -
  from move_piece_accepted [OF wf acc] obtain fr fc tr tc q where
    a: "position_to_coords a = Inr (fr, fc)" and b: "position_to_coords b = Inr (tr, tc)"
    and q: "board s ! nat fr ! nat fc = Some q"
    and bs: "board s' = put (put (put (board s) tr tc (Some q)) fr fc None) tr tc
                 (Some (q\<lparr>has_moved := True\<rparr>))"
    by blast
  have f: "is_valid_position fr fc" and t: "is_valid_position tr tc"
    using a b by (simp_all add: position_to_coords_valid)
  have wf': "wf_grid (board s')" unfolding bs using wf by (intro wf_grid_put)
  have dest: "cell s' tr tc = Some (q\<lparr>has_moved := True\<rparr>)"
    unfolding cell_def bs using wf t by (simp add: put_read wf_grid_put)
  have rest: "cell s' r c = cell s r c"
    if "is_valid_position r c \<and> (r, c) \<noteq> (fr, fc) \<and> (r, c) \<noteq> (tr, tc)" for r c
    unfolding cell_def bs using that wf f t by (auto simp: put_read wf_grid_put)
  have q': "cell s fr fc = Some q" using q by (simp add: cell_def)
  from a b f t wf' q' dest rest show ?thesis by blast
qed

lemma get_piece_cell:
  "wf_grid (board s) \<Longrightarrow> is_valid_position r c \<Longrightarrow> get_piece s r c = Inr (cell s r c)"
  by (simp add: get_piece_in_range cell_def is_valid_position_def)

lemma track_keeps_moved_pawn:
  "wf_grid (board s) \<Longrightarrow> get_piece s r c = Inr (Some p) \<Longrightarrow> piece_type p = PAWN \<Longrightarrow>
   has_moved p \<Longrightarrow> track s (r, c) ms = Some (s', (r', c')) \<Longrightarrow>
   wf_grid (board s') \<and>
   (\<exists>p'. get_piece s' r' c' = Inr (Some p') \<and> piece_type p' = PAWN \<and>
         color p' = color p \<and> has_moved p')"
proof (induction ms arbitrary: s r c p)
  case Nil
  then show ?case by simp
next
  case (Cons m ms)
  obtain a b where m: "m = (a, b)" by (cases m)
  from Cons.prems(5) obtain s1 where acc: "move_piece s a b = Some (Inr True, s1)"
    by (auto simp: m split: option.splits sum.splits bool.splits prod.splits)
  from accepted_move_cells [OF Cons.prems(1) acc] obtain fr fc tr tc q where
    a: "position_to_coords a = Inr (fr, fc)" and b: "position_to_coords b = Inr (tr, tc)"
    and f: "is_valid_position fr fc" and t: "is_valid_position tr tc"
    and wf1: "wf_grid (board s1)"
    and q: "cell s fr fc = Some q"
    and dest: "cell s1 tr tc = Some (q\<lparr>has_moved := True\<rparr>)"
    and rest: "\<forall>r c. is_valid_position r c \<and> (r, c) \<noteq> (fr, fc) \<and> (r, c) \<noteq> (tr, tc) \<longrightarrow>
        cell s1 r c = cell s r c"
    by blast
  have v: "is_valid_position r c" using Cons.prems(2) by (rule get_piece_Some_valid)
  have cp: "cell s r c = Some p"
    using Cons.prems(2) get_piece_cell [OF Cons.prems(1) v] by simp
  show ?case
  proof (cases "(fr, fc) = (r, c)")
    case True
    with q cp have qp: "q = p" by simp
    from Cons.prems(5) acc a b True have tr: "track s1 (tr, tc) ms = Some (s', (r', c'))"
      by (simp add: m)
    have gp: "get_piece s1 tr tc = Inr (Some (p\<lparr>has_moved := True\<rparr>))"
      using get_piece_cell [OF wf1 t] dest qp by simp
    from Cons.IH [OF wf1 gp _ _ tr] Cons.prems(3) show ?thesis by simp
  next
    case False
    with Cons.prems(5) acc a b have ne: "(tr, tc) \<noteq> (r, c)"
      and tr: "track s1 (r, c) ms = Some (s', (r', c'))"
      by (auto simp: m split: if_splits)
    from rest v False ne have "cell s1 r c = cell s r c" by auto
    with cp have gp: "get_piece s1 r c = Inr (Some p)"
      using get_piece_cell [OF wf1 v] by simp
    from Cons.IH [OF wf1 gp Cons.prems(3,4) tr] show ?thesis .
  qed
qed

lemma rejected_by_is_valid_move:
  assumes "position_to_coords a = Inr (fr, fc)" and "position_to_coords b = Inr (tr, tc)"
    and "is_valid_move s fr fc tr tc = Some (Inr False)"
  shows "move_piece s a b = Some (Inr False, s)"
  using assms by (simp add: move_piece_def)

text \<open>
  Claim C6. On an 8 by 8 board, for a pawn \<open>p\<close> standing on (\<open>fr\<close>, \<open>fc\<close>):
  when the central preconditions hold (it is the turn of the pawn's colour, the
  destination is on the board and holds no piece of that colour), \<^verbatim>\<open>is_valid_move\<close>
  returns exactly what the pawn rule of the specification says; a pawn whose
  \<^verbatim>\<open>has_moved\<close> is set is refused the two-square advance; a pawn that an accepted
  \<^verbatim>\<open>move_piece\<close> has just brought to its square has \<^verbatim>\<open>has_moved\<close> set; and after
  any run of accepted moves that follows, on whichever square that same pawn then stands,
  it is still a pawn of its colour with \<^verbatim>\<open>has_moved\<close> set, \<^verbatim>\<open>is_valid_move\<close>
  refuses its two-square advance, and \<^verbatim>\<open>move_piece\<close> for that advance returns
  \<^verbatim>\<open>False\<close> and changes nothing.
\<close>

theorem pawn_move_legality:
  assumes wf: "wf_grid (board s)"
    and p: "get_piece s fr fc = Inr (Some p)" and pawn: "piece_type p = PAWN"
  shows "(color p = current_player s \<and> is_valid_position tr tc \<and>
          (case cell s tr tc of None \<Rightarrow> True | Some q \<Rightarrow> color q \<noteq> color p) \<longrightarrow>
            is_valid_move s fr fc tr tc = Some (Inr (pawn_rule s p fr fc tr tc))) \<and>
         (has_moved p \<longrightarrow>
            is_valid_move s fr fc (fr + 2 * direction p) fc = Some (Inr False)) \<and>
         (\<forall>s0 a b. wf_grid (board s0) \<and> move_piece s0 a b = Some (Inr True, s) \<and>
            position_to_coords b = Inr (fr, fc) \<longrightarrow> has_moved p) \<and>
         (\<forall>s0 a b ms s' r' c'.
            wf_grid (board s0) \<and> move_piece s0 a b = Some (Inr True, s) \<and>
            position_to_coords b = Inr (fr, fc) \<and>
            track s (fr, fc) ms = Some (s', (r', c')) \<longrightarrow>
              (\<exists>p'. get_piece s' r' c' = Inr (Some p') \<and> piece_type p' = PAWN \<and>
                    color p' = color p \<and> has_moved p') \<and>
              is_valid_move s' r' c' (r' + 2 * direction p) c' = Some (Inr False) \<and>
              (\<forall>x y. position_to_coords x = Inr (r', c') \<and>
                     position_to_coords y = Inr (r' + 2 * direction p, c') \<longrightarrow>
                     move_piece s' x y = Some (Inr False, s')))"
proof -
  have c1: "color p = current_player s \<and> is_valid_position tr tc \<and>
          (case cell s tr tc of None \<Rightarrow> True | Some q \<Rightarrow> color q \<noteq> color p) \<longrightarrow>
            is_valid_move s fr fc tr tc = Some (Inr (pawn_rule s p fr fc tr tc))"
  proof
    assume a: "color p = current_player s \<and> is_valid_position tr tc \<and>
          (case cell s tr tc of None \<Rightarrow> True | Some q \<Rightarrow> color q \<noteq> color p)"
    then have t: "is_valid_position tr tc" by simp
    then have t': "0 \<le> tr" "tr < 8" "0 \<le> tc" "tc < 8" by (simp_all add: is_valid_position_def)
    have dest: "get_piece s tr tc = Inr (cell s tr tc)"
      using get_piece_in_range [OF wf t'] by (simp add: cell_def)
    show "is_valid_move s fr fc tr tc = Some (Inr (pawn_rule s p fr fc tr tc))"
      using a by (auto simp: is_valid_move_def p pawn dest pawn_move_rule [OF wf p t]
          split: option.splits)
  qed
  have c2: "has_moved p \<longrightarrow>
            is_valid_move s fr fc (fr + 2 * direction p) fc = Some (Inr False)"
    using moved_pawn_no_double_step [OF wf p pawn] by blast
  have c3: "\<forall>s0 a b. wf_grid (board s0) \<and> move_piece s0 a b = Some (Inr True, s) \<and>
            position_to_coords b = Inr (fr, fc) \<longrightarrow> has_moved p"
    using moved_piece_has_moved [of _ _ _ s fr fc p] p by blast
  have c4: "\<forall>s0 a b ms s' r' c'.
            wf_grid (board s0) \<and> move_piece s0 a b = Some (Inr True, s) \<and>
            position_to_coords b = Inr (fr, fc) \<and>
            track s (fr, fc) ms = Some (s', (r', c')) \<longrightarrow>
              (\<exists>p'. get_piece s' r' c' = Inr (Some p') \<and> piece_type p' = PAWN \<and>
                    color p' = color p \<and> has_moved p') \<and>
              is_valid_move s' r' c' (r' + 2 * direction p) c' = Some (Inr False) \<and>
              (\<forall>x y. position_to_coords x = Inr (r', c') \<and>
                     position_to_coords y = Inr (r' + 2 * direction p, c') \<longrightarrow>
                     move_piece s' x y = Some (Inr False, s'))"
  proof (intro allI impI)
    fix s0 a b ms s' r' c'
    assume h: "wf_grid (board s0) \<and> move_piece s0 a b = Some (Inr True, s) \<and>
            position_to_coords b = Inr (fr, fc) \<and>
            track s (fr, fc) ms = Some (s', (r', c'))"
    with c3 have m: "has_moved p" by blast
    from h have tr: "track s (fr, fc) ms = Some (s', (r', c'))" by simp
    from track_keeps_moved_pawn [OF wf p pawn m tr]
    obtain p' where wf': "wf_grid (board s')" and p': "get_piece s' r' c' = Inr (Some p')"
      and k: "piece_type p' = PAWN" and c: "color p' = color p" and m': "has_moved p'"
      by blast
    have d: "direction p' = direction p" using c by (simp add: direction_def)
    have no: "is_valid_move s' r' c' (r' + 2 * direction p) c' = Some (Inr False)"
      using moved_pawn_no_double_step [OF wf' p' k m'] d by simp
    show "(\<exists>p'. get_piece s' r' c' = Inr (Some p') \<and> piece_type p' = PAWN \<and>
                    color p' = color p \<and> has_moved p') \<and>
              is_valid_move s' r' c' (r' + 2 * direction p) c' = Some (Inr False) \<and>
              (\<forall>x y. position_to_coords x = Inr (r', c') \<and>
                     position_to_coords y = Inr (r' + 2 * direction p, c') \<longrightarrow>
                     move_piece s' x y = Some (Inr False, s'))"
      using p' k c m' no by (auto intro: rejected_by_is_valid_move)
  qed
  show ?thesis by (intro conjI c1 c2 c3 c4)
qed

theorem pawn_move_legality_witness:
  "wf_grid (board (state_after [(''e2'', ''e3''), (''a7'', ''a6'')])) \<and>
   get_piece (state_after [(''e2'', ''e3''), (''a7'', ''a6'')]) 5 4 =
     Inr (Some \<lparr>color = WHITE, piece_type = PAWN, has_moved = True\<rparr>) \<and>
   current_player (state_after [(''e2'', ''e3''), (''a7'', ''a6'')]) = WHITE \<and>
   is_valid_position 4 4 \<and>
   cell (state_after [(''e2'', ''e3''), (''a7'', ''a6'')]) 4 4 = None \<and>
   is_valid_move (state_after [(''e2'', ''e3''), (''a7'', ''a6'')]) 5 4 4 4 = Some (Inr True) \<and>
   is_valid_move (state_after [(''e2'', ''e3''), (''a7'', ''a6'')]) 5 4 3 4 = Some (Inr False) \<and>
   wf_grid (board new_board) \<and>
   move_piece new_board (pystr ''e2'') (pystr ''e3'') =
     Some (Inr True, state_after [(''e2'', ''e3'')]) \<and>
   position_to_coords (pystr ''e3'') = Inr (5, 4) \<and>
   get_piece (state_after [(''e2'', ''e3'')]) 5 4 =
     Inr (Some \<lparr>color = WHITE, piece_type = PAWN, has_moved = True\<rparr>) \<and>
   track (state_after [(''e2'', ''e3'')]) (5, 4) [(pystr ''a7'', pystr ''a6'')] =
     Some (state_after [(''e2'', ''e3''), (''a7'', ''a6'')], (5, 4)) \<and>
   position_to_coords (pystr ''e5'') = Inr (3, 4) \<and>
   move_piece (state_after [(''e2'', ''e3''), (''a7'', ''a6'')]) (pystr ''e3'') (pystr ''e5'') =
     Some (Inr False, state_after [(''e2'', ''e3''), (''a7'', ''a6'')])"
proof -
  let ?p = "\<lparr>color = WHITE, piece_type = PAWN, has_moved = True\<rparr>"
  let ?s = "state_after [(''e2'', ''e3''), (''a7'', ''a6'')]"
  let ?s1 = "state_after [(''e2'', ''e3'')]"
  have pawn: "piece_type ?p = PAWN" by simp
  have wf: "wf_grid (board ?s)" by code_simp
  have p: "get_piece ?s 5 4 = Inr (Some ?p)" by code_simp
  have turn: "current_player ?s = WHITE" by code_simp
  have t: "is_valid_position 4 4" by (simp add: is_valid_position_def)
  have dest: "cell ?s 4 4 = None" by code_simp
  have rule: "pawn_rule ?s ?p 5 4 4 4"
    using dest by (simp add: pawn_rule_def direction_def)
  have wf1: "wf_grid (board ?s1)" by code_simp
  have p1: "get_piece ?s1 5 4 = Inr (Some ?p)" by code_simp
  have mv: "move_piece new_board (pystr ''e2'') (pystr ''e3'') = Some (Inr True, ?s1)"
    by code_simp
  have b: "position_to_coords (pystr ''e3'') = Inr (5, 4)" by code_simp
  have y: "position_to_coords (pystr ''e5'') = Inr (3, 4)" by code_simp
  have tr: "track ?s1 (5, 4) [(pystr ''a7'', pystr ''a6'')] = Some (?s, (5, 4))"
    by code_simp
  from pawn_move_legality [OF wf p pawn, of 4 4] turn t dest rule
  have one: "is_valid_move ?s 5 4 4 4 = Some (Inr True)" by simp
  from pawn_move_legality [OF wf p pawn, of 4 4]
  have two: "is_valid_move ?s 5 4 3 4 = Some (Inr False)" by (simp add: direction_def)
  have later: "\<forall>x y. position_to_coords x = Inr (5, 4) \<and>
            position_to_coords y = Inr (5 + 2 * direction ?p, 4) \<longrightarrow>
            move_piece ?s x y = Some (Inr False, ?s)"
    using pawn_move_legality [OF wf1 p1 pawn, of 4 4] wf_grid_new_board mv b tr by blast
  then have three: "move_piece ?s (pystr ''e3'') (pystr ''e5'') = Some (Inr False, ?s)"
    using b y by (simp add: direction_def)
  from wf p turn t dest one two wf_grid_new_board mv b p1 tr y three
  show ?thesis by simp
qed

section \<open>Position strings\<close>

lemma py_int_ascii:
  "c < 128 \<Longrightarrow>
   py_int c = (if 48 \<le> c \<and> c \<le> 57 then Inr (int c - 48) else Inl ValueError)"
  by (simp add: py_int_def decimal_zeros_def)

lemma ascii_malformed_ValueError:
  assumes "ascii str" and "\<not> well_formed_position str"
  shows "position_to_coords str = Inl ValueError"
proof (cases "length str = 2")
  case False
  then show ?thesis by (simp add: position_to_coords_def)
next
  case True
  then obtain c d where str: "str = [c, d]"
    by (cases str; cases "tl str") auto
  with assms have cd: "c < 128" "d < 128" by (simp_all add: ascii_def)
  from assms(2) str have bad: "\<not> (((97 \<le> c \<and> c \<le> 104) \<or> (65 \<le> c \<and> c \<le> 72)) \<and> 49 \<le> d \<and> d \<le> 56)"
    by (simp add: well_formed_position_def)
  show ?thesis
    using cd bad unfolding str position_to_coords_def py_lower_def py_ord_def Let_def
    by (auto simp: py_int_ascii split: if_splits)
qed

lemma ascii_parses:
  assumes "ascii str"
  shows "position_to_coords str = Inl ValueError \<or> (\<exists>r c. position_to_coords str = Inr (r, c))"
proof (cases "length str = 2")
  case False
  then show ?thesis by (simp add: position_to_coords_def)
next
  case True
  then obtain c d where str: "str = [c, d]"
    by (cases str; cases "tl str") auto
  with assms have cd: "c < 128" "d < 128" by (simp_all add: ascii_def)
  show ?thesis
    using cd unfolding str position_to_coords_def py_lower_def py_ord_def Let_def
    by (auto simp: py_int_ascii split: if_splits)
qed

text \<open>
  Claim C7, as stated, fails: \<^verbatim>\<open>int\<close> reads the decimal digits of every script. The
  two-character string of \<^verbatim>\<open>e\<close> and U+0663 (ARABIC-INDIC DIGIT THREE) is not a file
  letter followed by one of \<^verbatim>\<open>1\<close> .. \<^verbatim>\<open>8\<close>, yet it parses as the square e3, and
  \<^verbatim>\<open>move_piece\<close> accepts the move from e2 to it.
\<close>

theorem malformed_position_rejected_counterexample:
  "\<not> well_formed_position [101, 1635] \<and> position_to_coords [101, 1635] = Inr (5, 4) \<and>
   map_option fst (move_piece new_board (pystr ''e2'') [101, 1635]) = Some (Inr True)"
  by code_simp

text \<open>
  A second way out of the claim: the lower case of U+0130 has two characters, \<^verbatim>\<open>ord\<close>
  raises \<^verbatim>\<open>TypeError\<close> on it, and \<^verbatim>\<open>move_piece\<close> catches \<^verbatim>\<open>ValueError\<close> only.
\<close>

lemma dotted_capital_I_raises:
  "map_option fst (move_piece new_board [304, 50] (pystr ''e4'')) = Some (Inl TypeError)"
  by code_simp

text \<open>
  Claim C7, amended. For position strings of ASCII characters: when either string is not
  a file letter \<^verbatim>\<open>a\<close> .. \<^verbatim>\<open>h\<close> (in either case) followed by a rank digit
  \<^verbatim>\<open>1\<close> .. \<^verbatim>\<open>8\<close>, \<^verbatim>\<open>move_piece\<close> returns \<^verbatim>\<open>False\<close> and leaves the state as it
  was; it raises nothing and reads no cell. The strings \<^verbatim>\<open>i9\<close> and \<^verbatim>\<open>e0\<close> are
  two such.
\<close>

theorem malformed_position_rejected:
  assumes a: "ascii from_pos" and b: "ascii to_pos"
    and bad: "\<not> well_formed_position from_pos \<or> \<not> well_formed_position to_pos"
  shows "move_piece s from_pos to_pos = Some (Inr False, s)"
proof (cases "well_formed_position from_pos")
  case False
  with a have "position_to_coords from_pos = Inl ValueError"
    by (simp add: ascii_malformed_ValueError)
  then show ?thesis by (simp add: move_piece_def)
next
  case True
  with bad b have t: "position_to_coords to_pos = Inl ValueError"
    by (simp add: ascii_malformed_ValueError)
  from ascii_parses [OF a] show ?thesis
    by (auto simp: move_piece_def t)
qed

theorem malformed_position_rejected_witness:
  "ascii (pystr ''i9'') \<and> ascii (pystr ''e0'') \<and> ascii (pystr ''e4'') \<and>
   \<not> well_formed_position (pystr ''i9'') \<and> \<not> well_formed_position (pystr ''e0'') \<and>
   move_piece new_board (pystr ''i9'') (pystr ''e4'') = Some (Inr False, new_board) \<and>
   move_piece new_board (pystr ''e4'') (pystr ''e0'') = Some (Inr False, new_board)"
proof -
  have a: "ascii (pystr ''i9'')" "ascii (pystr ''e0'')" "ascii (pystr ''e4'')"
    by code_simp+
  have bad: "\<not> well_formed_position (pystr ''i9'')" "\<not> well_formed_position (pystr ''e0'')"
    by code_simp+
  from malformed_position_rejected [OF a(1) a(3), of new_board]
    malformed_position_rejected [OF a(3) a(2), of new_board] a bad
  show ?thesis by simp
qed

section \<open>Check detection and the side to move\<close>

text \<open>
  \<^verbatim>\<open>is_in_check(color)\<close> asks \<^verbatim>\<open>is_valid_move\<close> about the pieces of the other colour,
  and \<^verbatim>\<open>is_valid_move\<close> refuses every piece that is not of the current player. For the
  current player's own colour the answer is therefore never \<^verbatim>\<open>True\<close>, and with it
  neither is the answer of \<^verbatim>\<open>would_be_in_check_after_move\<close> nor that of
  \<^verbatim>\<open>is_checkmate\<close> for the current player.
\<close>

lemma is_valid_move_wrong_turn:
  assumes "board_at (board s) row col = Inr (Some piece)" and "color piece \<noteq> current_player s"
  shows "is_valid_move s row col to_row to_col = Some (Inr False)"
  using assms by (simp add: is_valid_move_def get_piece_def)

lemma in_check_loop_own_turn:
  "in_check_loop s (current_player s) king_row king_col sq \<noteq> Some (Inr True)"
proof (induction sq)
  case Nil
  show ?case by simp
next
  case (Cons a sq)
  obtain row col where a: "a = (row, col)" by (cases a)
  show ?case
  proof (cases "board_at (board s) row col")
    case (Inl e)
    then show ?thesis by (simp add: a)
  next
    case (Inr x)
    show ?thesis
    proof (cases x)
      case None
      with Inr Cons.IH show ?thesis by (simp add: a)
    next
      case (Some piece)
      with Inr Cons.IH show ?thesis
        by (simp add: a is_valid_move_wrong_turn)
    qed
  qed
qed

lemma is_in_check_own_turn: "is_in_check s (current_player s) \<noteq> Some (Inr True)"
  by (simp add: is_in_check_def in_check_loop_own_turn split: sum.split prod.split)

lemma would_be_in_check_never_True:
  "would_be_in_check_after_move s fr fc tr tc \<noteq> Some (Inr True, s')"
proof -
  have "is_in_check (s\<lparr>board := g\<rparr>) (current_player s) \<noteq> Some (Inr True)" for g
    using is_in_check_own_turn [of "s\<lparr>board := g\<rparr>"] by simp
  then show ?thesis
    by (auto simp: would_be_in_check_after_move_def split: sum.splits option.splits)
qed

lemma is_checkmate_own_turn: "is_checkmate s (current_player s) \<noteq> Some (Inr True, s')"
  using is_in_check_own_turn [of s]
  by (auto simp: is_checkmate_def split: sum.splits option.splits if_splits)

text \<open>
  For the colour that is not to move \<^verbatim>\<open>is_in_check\<close> is right: on an 8 by 8 board
  with that colour's King on it, it returns whether the colour is attacked.
\<close>

lemma attacker_pair:
  "attacker s clr kr kc (r, c) \<longleftrightarrow>
     (case cell s r c of None \<Rightarrow> False | Some p \<Rightarrow> color p \<noteq> clr) \<and> rule_legal s r c kr kc"
  by (simp add: attacker_def)

lemma is_valid_move_on_turn:
  assumes wf: "wf_grid (board s)" and f: "is_valid_position fr fc"
    and p: "cell s fr fc = Some p" and turn: "color p = current_player s"
  shows "is_valid_move s fr fc tr tc = Some (Inr (rule_legal s fr fc tr tc))"
proof -
  have f': "0 \<le> fr" "fr < 8" "0 \<le> fc" "fc < 8" using f by (simp_all add: is_valid_position_def)
  have gp: "get_piece s fr fc = Inr (Some p)"
    using get_piece_in_range [OF wf f'] p by (simp add: cell_def)
  show ?thesis
  proof (cases "is_valid_position tr tc")
    case False
    then show ?thesis by (simp add: is_valid_move_def gp turn rule_legal_def p)
  next
    case t: True
    then have t': "0 \<le> tr" "tr < 8" "0 \<le> tc" "tc < 8" by (simp_all add: is_valid_position_def)
    have gd: "get_piece s tr tc = Inr (cell s tr tc)"
      using get_piece_in_range [OF wf t'] by (simp add: cell_def)
    obtain pv where pv: "is_valid_pawn_move s fr fc tr tc = Inr pv"
      using is_valid_pawn_move_returns [OF wf gp] by blast
    obtain rv where rv: "is_valid_rook_move s fr fc tr tc = Some (Inr rv)"
      using is_valid_rook_move_returns [OF wf f t] by blast
    obtain bv where bv: "is_valid_bishop_move s fr fc tr tc = Some (Inr bv)"
      using is_valid_bishop_move_returns [OF wf f t] by blast
    obtain qv where qv: "is_valid_queen_move s fr fc tr tc = Some (Inr qv)"
      using is_valid_queen_move_returns [OF wf f t] by blast
    show ?thesis
      by (auto simp: is_valid_move_def gp gd turn rule_legal_def p f t pv rv bv qv
          split: option.splits piece_type.splits)
  qed
qed

lemma in_check_loop_other_side:
  assumes wf: "wf_grid (board s)" and other: "clr \<noteq> current_player s"
  shows "(\<forall>(r, c) \<in> set sq. is_valid_position r c) \<Longrightarrow>
         in_check_loop s clr kr kc sq = Some (Inr (list_ex (attacker s clr kr kc) sq))"
proof (induction sq)
  case Nil
  show ?case by simp
next
  case (Cons a sq)
  obtain r c where a: "a = (r, c)" by (cases a)
  with Cons.prems have v: "is_valid_position r c" by simp
  then have v': "0 \<le> r" "r < 8" "0 \<le> c" "c < 8" by (simp_all add: is_valid_position_def)
  have ba: "board_at (board s) r c = Inr (cell s r c)"
    using board_at_in_range [OF wf v'] by (simp add: cell_def)
  from Cons.IH Cons.prems
  have ih: "in_check_loop s clr kr kc sq = Some (Inr (list_ex (attacker s clr kr kc) sq))"
    by auto
  show ?case
  proof (cases "cell s r c")
    case None
    then show ?thesis by (simp add: a ba ih attacker_pair)
  next
    case (Some p)
    show ?thesis
    proof (cases "color p = clr")
      case True
      then show ?thesis by (simp add: a ba ih attacker_pair Some)
    next
      case False
      with other have "color p = current_player s"
        by (cases "color p"; cases clr; cases "current_player s") auto
      from is_valid_move_on_turn [OF wf v Some this]
      show ?thesis using False by (simp add: a ba ih attacker_pair Some)
    qed
  qed
qed

lemma is_in_check_other_side:
  assumes wf: "wf_grid (board s)" and other: "clr \<noteq> current_player s"
    and king: "find_king s clr \<noteq> Inl ValueError"
  shows "is_in_check s clr = Some (Inr (attacked s clr))"
proof -
  have sq: "\<forall>(r, c) \<in> set squares. is_valid_position r c"
    using squares_valid by auto
  from find_king_loop_result [OF wf sq, of clr] king
  obtain kr kc where k: "find_king s clr = Inr (kr, kc)" by (auto simp: find_king_def)
  show ?thesis
    by (simp add: is_in_check_def attacked_def k in_check_loop_other_side [OF wf other sq])
qed

text \<open>
  Claim C1 fails on the code. After e2-e4, d7-d6, f1-b5 it is Black's turn, the black King
  stands on (0, 4), the white bishop on (3, 1) has a clear diagonal to it, the bishop rule
  returns \<^verbatim>\<open>True\<close> for that move, the destination is on the board and holds a piece of
  the other colour: Black is attacked, and \<^verbatim>\<open>is_in_check(BLACK)\<close> returns
  \<^verbatim>\<open>False\<close>.
\<close>

theorem in_check_misses_attack:
  "(case play new_board [(''e2'', ''e4''), (''d7'', ''d6''), (''f1'', ''b5'')] of
      Some (Inr True, s) \<Rightarrow>
        current_player s = BLACK \<and>
        find_king s BLACK = Inr (0, 4) \<and>
        get_piece s 0 4 = Inr (Some \<lparr>color = BLACK, piece_type = KING, has_moved = False\<rparr>) \<and>
        get_piece s 3 1 = Inr (Some \<lparr>color = WHITE, piece_type = BISHOP, has_moved = True\<rparr>) \<and>
        is_valid_position 0 4 \<and>
        is_valid_bishop_move s 3 1 0 4 = Some (Inr True) \<and>
        attacker s BLACK 0 4 (3, 1) \<and>
        attacked s BLACK \<and>
        is_in_check s BLACK = Some (Inr False)
    | _ \<Rightarrow> False)"
  by code_simp

text \<open>
  Claim C2 fails on the code. In the same position Black, in check from the bishop, plays
  a7-a6: both strings parse, \<^verbatim>\<open>is_valid_move\<close> returns \<^verbatim>\<open>True\<close>, the simulation
  returns \<^verbatim>\<open>False\<close>, and \<^verbatim>\<open>move_piece\<close> commits the move. In the state it leaves,
  where it is White's turn, \<^verbatim>\<open>is_in_check(BLACK)\<close> itself returns \<^verbatim>\<open>True\<close>.
\<close>

theorem self_check_not_rejected:
  "(case play new_board [(''e2'', ''e4''), (''d7'', ''d6''), (''f1'', ''b5'')] of
      Some (Inr True, s) \<Rightarrow>
        position_to_coords (pystr ''a7'') = Inr (1, 0) \<and>
        position_to_coords (pystr ''a6'') = Inr (2, 0) \<and>
        is_valid_move s 1 0 2 0 = Some (Inr True) \<and>
        would_be_in_check_after_move s 1 0 2 0 = Some (Inr False, s) \<and>
        (case move_piece s (pystr ''a7'') (pystr ''a6'') of
           Some (Inr True, s') \<Rightarrow>
             current_player s' = WHITE \<and> attacked s' BLACK \<and>
             is_in_check s' BLACK = Some (Inr True)
         | _ \<Rightarrow> False)
    | _ \<Rightarrow> False)"
  by code_simp

text \<open>
  Claim C3 fails on the code. The seven moves are all accepted; the white queen then
  stands on (1, 5) next to the black King with the queen rule returning \<^verbatim>\<open>True\<close> for
  the capture, and \<^verbatim>\<open>is_checkmate(BLACK)\<close> returns \<^verbatim>\<open>False\<close>, because
  \<^verbatim>\<open>is_in_check(BLACK)\<close> does.
\<close>

theorem scholars_mate_not_detected:
  "(case play new_board
           [(''e2'', ''e4''), (''e7'', ''e5''), (''f1'', ''c4''), (''b8'', ''c6''),
            (''d1'', ''h5''), (''g8'', ''f6''), (''h5'', ''f7'')] of
      Some (Inr True, s) \<Rightarrow>
        current_player s = BLACK \<and>
        find_king s BLACK = Inr (0, 4) \<and>
        get_piece s 1 5 = Inr (Some \<lparr>color = WHITE, piece_type = QUEEN, has_moved = True\<rparr>) \<and>
        is_valid_queen_move s 1 5 0 4 = Some (Inr True) \<and>
        attacked s BLACK \<and>
        is_in_check s BLACK = Some (Inr False) \<and>
        is_checkmate s BLACK = Some (Inr False, s)
    | _ \<Rightarrow> False)"
  by code_simp

end
